theory Spec2Isabelle
  imports Main "HOL-Library.Word"
begin

unbundle bit_operations_syntax

section \<open>Data model of examples/console.cpp\<close>

text \<open>
  Bytes of a \<open>std::string\<close> are 8-bit words, \<open>char32_t\<close> and the \<open>wint_t\<close> values
  delivered by \<open>getwchar\<close> are 32-bit words, \<open>int\<close> is modelled by \<open>int\<close> (nothing
  proved below depends on the overflow of a width).
\<close>

type_synonym byte = "8 word"
type_synonym char32 = "32 word"
type_synonym wint = "32 word"

text \<open>
  \<open>WCHAR_MAX\<close>, \<open>wchar_t\<close> and \<open>WEOF\<close> come from the C library header \<open>wchar.h\<close>,
  not from the repository. The platform is a parameter: \<open>WCHAR16\<close> is a platform with
  \<open>WCHAR_MAX == 0xFFFF\<close> (16-bit unsigned \<open>wchar_t\<close> and \<open>wint_t\<close>, \<open>WEOF = 0xFFFF\<close>),
  \<open>WCHAR32\<close> one with a 32-bit \<open>wchar_t\<close> (\<open>WEOF = 0xFFFFFFFF\<close>), where the surrogate
  code of \<open>getchar32\<close> is compiled out.
\<close>

datatype wchar_platform = WCHAR16 | WCHAR32

definition WEOF :: "wchar_platform \<Rightarrow> wint" where
  "WEOF p = (case p of WCHAR16 \<Rightarrow> 0xFFFF | WCHAR32 \<Rightarrow> 0xFFFFFFFF)"

text \<open>
  The wide-character input is the list of values that successive calls of \<open>getwchar\<close>
  deliver; an element equal to \<open>WEOF\<close> is a failed read, and at the end of the list
  every call returns \<open>WEOF\<close>. On \<open>WCHAR16\<close> a unit has 16 bits.
\<close>

definition getwchar :: "wchar_platform \<Rightarrow> wint list \<Rightarrow> wint \<times> wint list" where
  "getwchar p s =
     (case s of
        [] \<Rightarrow> (WEOF p, [])
      | u # r \<Rightarrow> ((case p of WCHAR16 \<Rightarrow> u AND 0xFFFF | WCHAR32 \<Rightarrow> u), r))"

definition getchar32 :: "wchar_platform \<Rightarrow> wint list \<Rightarrow> char32 \<times> wint list" where
  "getchar32 p s =
     (let (wc, s1) = getwchar p s in
      if wc = WEOF p then (WEOF p, s1)
      else
        (case p of
           WCHAR32 \<Rightarrow> (wc, s1)
         | WCHAR16 \<Rightarrow>
             (case (if 0xD800 \<le> wc \<and> wc \<le> 0xDBFF
                    then (let (low_surrogate, s2) = getwchar p s1 in
                          if 0xDC00 \<le> low_surrogate \<and> low_surrogate \<le> 0xDFFF
                          then (Some (push_bit 10 (wc AND 0x03FF)
                                      + (low_surrogate AND 0x03FF) + 0x10000), s2)
                          else (None, s2))
                    else (None, s1)) of
                (Some c, s') \<Rightarrow> (c, s')
              | (None, s') \<Rightarrow>
                  if 0xD800 \<le> wc \<and> wc \<le> 0xDFFF then (0xFFFD, s') else (wc, s'))))"

definition append_utf8 :: "char32 \<Rightarrow> byte list \<Rightarrow> byte list" where
  "append_utf8 ch out =
     (if ch \<le> 0x7F then out @ [ucast ch]
      else if ch \<le> 0x7FF then
        out @ [ucast (0xC0 OR (drop_bit 6 ch AND 0x1F)),
               ucast (0x80 OR (ch AND 0x3F))]
      else if ch \<le> 0xFFFF then
        out @ [ucast (0xE0 OR (drop_bit 12 ch AND 0x0F)),
               ucast (0x80 OR (drop_bit 6 ch AND 0x3F)),
               ucast (0x80 OR (ch AND 0x3F))]
      else if ch \<le> 0x10FFFF then
        out @ [ucast (0xF0 OR (drop_bit 18 ch AND 0x07)),
               ucast (0x80 OR (drop_bit 12 ch AND 0x3F)),
               ucast (0x80 OR (drop_bit 6 ch AND 0x3F)),
               ucast (0x80 OR (ch AND 0x3F))]
      else out)"

text \<open>
  The \<open>for\<close> loop of \<open>pop_back_utf8_char\<close>: \<open>i\<close> counts the bytes stepped over,
  \<open>pos\<close> is the index looked at.
\<close>

function pop_back_scan :: "byte list \<Rightarrow> nat \<Rightarrow> nat \<Rightarrow> nat" where
  "pop_back_scan line i pos =
     (if i < 3 \<and> pos > 0
      then (if (line ! pos) AND 0xC0 \<noteq> 0x80 then pos
            else pop_back_scan line (i + 1) (pos - 1))
      else pos)"
  by pat_completeness auto
termination
  by (relation "measure (\<lambda>(line, i, pos). 3 - i)") auto

declare pop_back_scan.simps [simp del]

definition pop_back_utf8_char :: "byte list \<Rightarrow> byte list" where
  "pop_back_utf8_char line =
     (if line = [] then line
      else take (pop_back_scan line 0 (length line - 1)) line)"

section \<open>Console state\<close>

datatype console_mode_t = CONSOLE_RESET | CONSOLE_PROMPT | CONSOLE_INPUT | CONSOLE_ERROR

text \<open>
  The two streams a \<open>FILE*\<close> of the console state can point to. The field
  \<open>output\<close> of \<open>ConsoleIO\<close> is \<open>output_file\<close> here.
\<close>

datatype FILE = Stdout | DevTty

record ConsoleIO =
  simple :: bool
  multiline :: bool
  output_file :: FILE
  teletype :: "FILE option"

record ConsoleDisplay =
  advanced :: bool
  mode :: console_mode_t

text \<open>The saved \<open>termios\<close> attributes of \<open>ConsoleState\<close> are left out.\<close>

record ConsoleState =
  io :: ConsoleIO
  display :: ConsoleDisplay

text \<open>The default member initialisers of the three structs in \<open>simple.h\<close>.\<close>

definition console_state_initial :: ConsoleState where
  "console_state_initial =
     \<lparr>io = \<lparr>simple = True, multiline = False, output_file = Stdout, teletype = None\<rparr>,
      display = \<lparr>advanced = False, mode = CONSOLE_RESET\<rparr>\<rparr>"

text \<open>
  What the functions write to the terminal (ANSI codes, echoed bytes, cursor moves) and to
  \<open>stderr\<close> is not part of the model; what they read and what they store is.
\<close>

definition console_set_display_mode :: "console_mode_t \<Rightarrow> ConsoleState \<Rightarrow> ConsoleState" where
  "console_set_display_mode m cs =
     (if advanced (display cs) \<and> mode (display cs) \<noteq> m
      then cs\<lparr>display := (display cs)\<lparr>mode := m\<rparr>\<rparr>
      else cs)"

text \<open>\<open>tty_opens\<close> says whether \<open>fopen("/dev/tty", "w+")\<close> succeeds.\<close>

definition console_create :: "bool \<Rightarrow> bool \<Rightarrow> bool \<Rightarrow> ConsoleState \<Rightarrow> ConsoleState" where
  "console_create tty_opens use_simple_io use_advanced_display cs =
     (let cs1 = cs\<lparr>display := (display cs)\<lparr>advanced := use_advanced_display\<rparr>\<rparr>;
          cs2 = cs1\<lparr>io := (io cs1)\<lparr>simple := use_simple_io\<rparr>\<rparr>
      in if \<not> simple (io cs2)
         then (let cs3 = cs2\<lparr>io := (io cs2)\<lparr>teletype := (if tty_opens then Some DevTty else None)\<rparr>\<rparr>
               in if teletype (io cs3) \<noteq> None
                  then cs3\<lparr>io := (io cs3)\<lparr>output_file := DevTty\<rparr>\<rparr>
                  else cs3)
         else cs2)"

definition console_reset :: "ConsoleState \<Rightarrow> ConsoleState" where
  "console_reset cs =
     (let cs1 = console_set_display_mode CONSOLE_RESET cs
      in if \<not> simple (io cs1)
         then (if teletype (io cs1) \<noteq> None
               then cs1\<lparr>io := (io cs1)\<lparr>teletype := None, output_file := Stdout\<rparr>\<rparr>
               else cs1)
         else cs1)"

text \<open>
  The console of the examples: \<open>console_create(false, false)\<close> on the initial state,
  with no terminal device to open.
\<close>

definition example_console :: ConsoleState where
  "example_console = console_create False False False console_state_initial"

section \<open>Display width\<close>

text \<open>
  One call of \<open>fscanf(teletype, "\033[%d;%dR", &y, &x)\<close> returns \<open>EOF\<close>, 0, 1 or 2
  and assigns that many integers. The replies of the terminal are the list of these
  outcomes; when the list is used up the call returns \<open>EOF\<close>.
\<close>

datatype scan_reply = ScanEOF | ScanNone | ScanOne int | ScanTwo int int

fun scan_count :: "scan_reply \<Rightarrow> int" where
  "scan_count ScanEOF = -1"
| "scan_count ScanNone = 0"
| "scan_count (ScanOne y) = 1"
| "scan_count (ScanTwo y x) = 2"

definition fscanf_cursor_pos :: "scan_reply list \<Rightarrow> scan_reply \<times> scan_reply list" where
  "fscanf_cursor_pos tty = (case tty of [] \<Rightarrow> (ScanEOF, []) | r # rs \<Rightarrow> (r, rs))"

text \<open>
  \<open>put_codepoint\<close>, with the column count \<open>ws_col\<close> that \<open>ioctl(TIOCGWINSZ)\<close> reports.
  The last case of the inner \<open>case\<close> is never reached: a count of 4 needs two replies
  of two integers.
\<close>

definition put_codepoint ::
  "ConsoleState \<Rightarrow> int \<Rightarrow> int \<Rightarrow> scan_reply list \<Rightarrow> int \<times> scan_reply list" where
  "put_codepoint cs ws_col expected_width tty =
     (if expected_width \<ge> 0 \<or> teletype (io cs) = None then (expected_width, tty)
      else
        (case fscanf_cursor_pos tty of (r1, tty1) \<Rightarrow>
         case fscanf_cursor_pos tty1 of (r2, tty2) \<Rightarrow>
           let result_count = scan_count r1 + scan_count r2 in
           if 4 \<noteq> result_count then (expected_width, tty2)
           else
             (case (r1, r2) of
                (ScanTwo start_y start_x, ScanTwo end_y end_x) \<Rightarrow>
                  (let width = end_x - start_x
                   in (if 0 > width then width + ws_col else width, tty2))
              | _ \<Rightarrow> (expected_width, tty2))))"

text \<open>
  The environment of a read: the platform, the \<open>wcwidth\<close> table of the C library for the
  current locale, and the column count of the window.
\<close>

record console_env =
  platform :: wchar_platform
  wcwidth :: "char32 \<Rightarrow> int"
  ws_col :: int

text \<open>
  An environment for examples: 32-bit wide characters, 80 columns, and a width table that
  gives the combining acute accent U+0301 width 0 and every other character width 1.
\<close>

definition example_env :: console_env where
  "example_env =
     \<lparr>platform = WCHAR32, wcwidth = (\<lambda>c. if c = 0x301 then 0 else 1), ws_col = 80\<rparr>"

text \<open>The same environment on a platform whose wide characters have 16 bits.\<close>

definition example_env16 :: console_env where
  "example_env16 = example_env\<lparr>platform := WCHAR16\<rparr>"

definition estimate_width :: "console_env \<Rightarrow> char32 \<Rightarrow> int" where
  "estimate_width E codepoint = wcwidth E codepoint"

section \<open>The advanced read\<close>

text \<open>
  The local variables of \<open>console_readline_advanced\<close>, the console state, and the two
  inputs: the wide characters on standard input and the replies of the terminal.
\<close>

record readline_state =
  console_state :: ConsoleState
  line :: "byte list"
  widths :: "int list"
  is_special_char :: bool
  end_of_stream :: bool
  wstdin :: "wint list"
  tty_in :: "scan_reply list"

datatype 'a loop_result = Break 'a | Continue 'a

definition is_final_byte :: "char32 \<Rightarrow> bool" where
  "is_final_byte code \<longleftrightarrow>
     (0x41 \<le> code \<and> code \<le> 0x5A) \<or> (0x61 \<le> code \<and> code \<le> 0x7A) \<or> code = 0x7E"

text \<open>Reading a character other than \<open>WEOF\<close> uses up input.\<close>

lemma getwchar_length: "getwchar p s = (c, s') \<Longrightarrow> length s' \<le> length s"
  by (auto simp: getwchar_def split: list.splits)

lemma getwchar_shorter: "getwchar p s = (c, s') \<Longrightarrow> s \<noteq> [] \<Longrightarrow> length s' < length s"
  by (auto simp: getwchar_def split: list.splits)

lemma getchar32_length: "getchar32 p s = (c, s') \<Longrightarrow> length s' \<le> length s"
  by (cases s; cases p)
     (auto simp: getchar32_def getwchar_def Let_def
           split: list.splits if_splits prod.splits option.splits)

lemma getchar32_shorter:
  "getchar32 p s = (c, s') \<Longrightarrow> c \<noteq> WEOF p \<Longrightarrow> length s' < length s"
  by (cases s; cases p)
     (auto simp: getchar32_def getwchar_def Let_def
           split: list.splits if_splits prod.splits option.splits)

function discard_escape :: "wchar_platform \<Rightarrow> wint list \<Rightarrow> wint list" where
  "discard_escape p s =
     (case getchar32 p s of (code, s') \<Rightarrow>
        if code \<noteq> WEOF p
        then (if is_final_byte code then s' else discard_escape p s')
        else s')"
  by pat_completeness auto
termination
  by (relation "measure (\<lambda>(p, s). length s)") (auto dest: getchar32_shorter [OF sym])

declare discard_escape.simps [simp del]

function pop_widths :: "byte list \<Rightarrow> int list \<Rightarrow> byte list \<times> int list" where
  "pop_widths ln ws =
     (let count = last ws; ws' = butlast ws; ln' = pop_back_utf8_char ln
      in if count = 0 \<and> ws' \<noteq> [] then pop_widths ln' ws' else (ln', ws'))"
  by pat_completeness auto
termination
proof (relation "measure (\<lambda>(ln, ws). length ws)")
  fix ln :: "byte list" and ws :: "int list" and count ws' ln'
  assume "ws' = butlast ws" and "count = 0 \<and> ws' \<noteq> []"
  then have "ws \<noteq> []" by auto
  with \<open>ws' = butlast ws\<close> show "((ln', ws'), (ln, ws)) \<in> measure (\<lambda>(ln, ws). length ws)"
    by simp
qed simp

declare pop_widths.simps [simp del]

text \<open>Lines 253 to 257: the highlight of a pending marker is taken back.\<close>

definition clear_special :: "readline_state \<Rightarrow> readline_state" where
  "clear_special st =
     (if is_special_char st
      then st\<lparr>console_state := console_set_display_mode CONSOLE_INPUT (console_state st),
              is_special_char := False\<rparr>
      else st)"

text \<open>Lines 259 to 269: an escape sequence is read and dropped.\<close>

definition handle_escape :: "console_env \<Rightarrow> readline_state \<Rightarrow> readline_state" where
  "handle_escape E st =
     (case getchar32 (platform E) (wstdin st) of (code, s') \<Rightarrow>
        if code = 0x5B \<or> code = 0x1B
        then st\<lparr>wstdin := discard_escape (platform E) s'\<rparr>
        else st\<lparr>wstdin := s'\<rparr>)"

text \<open>Lines 270 to 283: backspace.\<close>

definition handle_backspace :: "readline_state \<Rightarrow> readline_state" where
  "handle_backspace st =
     (if widths st \<noteq> []
      then (case pop_widths (line st) (widths st) of (ln, ws) \<Rightarrow> st\<lparr>line := ln, widths := ws\<rparr>)
      else st)"

text \<open>Lines 284 to 294: any other character is appended.\<close>

definition handle_insert :: "console_env \<Rightarrow> char32 \<Rightarrow> readline_state \<Rightarrow> readline_state" where
  "handle_insert E input_char st =
     (let ln = append_utf8 input_char (line st) in
      case put_codepoint (console_state st) (ws_col E) (estimate_width E input_char) (tty_in st)
      of (width, tty) \<Rightarrow>
        st\<lparr>line := ln,
            widths := widths st @ [if width < 0 then 0 else width],
            tty_in := tty\<rparr>)"

text \<open>Lines 296 to 300: a trailing backslash or slash is highlighted and remembered.\<close>

definition mark_special :: "readline_state \<Rightarrow> readline_state" where
  "mark_special st =
     (if line st \<noteq> [] \<and> (last (line st) = 0x5C \<or> last (line st) = 0x2F)
      then st\<lparr>console_state := console_set_display_mode CONSOLE_PROMPT (console_state st),
              is_special_char := True\<rparr>
      else st)"

text \<open>One turn of the \<open>while (true)\<close> loop, lines 239 to 301.\<close>

definition readline_iteration :: "console_env \<Rightarrow> readline_state \<Rightarrow> readline_state loop_result" where
  "readline_iteration E st =
     (case getchar32 (platform E) (wstdin st) of (input_char, s1) \<Rightarrow>
        if input_char = 0x0D \<or> input_char = 0x0A then Break (st\<lparr>wstdin := s1\<rparr>)
        else if input_char = WEOF (platform E) \<or> input_char = 0x04
        then Break (st\<lparr>end_of_stream := True, wstdin := s1\<rparr>)
        else
          (let st1 = clear_special (st\<lparr>wstdin := s1\<rparr>);
               st2 = (if input_char = 0x1B then handle_escape E st1
                      else if input_char = 0x08 \<or> input_char = 0x7F then handle_backspace st1
                      else handle_insert E input_char st1)
           in Continue (mark_special st2)))"

lemma discard_escape_length: "length (discard_escape p s) \<le> length s"
proof (induction p s rule: discard_escape.induct)
  case (1 p s)
  obtain code s' where g: "getchar32 p s = (code, s')" by (cases "getchar32 p s")
  have le: "length s' \<le> length s" using g by (rule getchar32_length)
  show ?case
  proof (cases "code \<noteq> WEOF p \<and> \<not> is_final_byte code")
    case True
    then have "length (discard_escape p s') \<le> length s'" using "1.IH" [OF g [symmetric]] by simp
    then show ?thesis using g True le by (subst discard_escape.simps) simp
  next
    case False
    then show ?thesis using g le by (subst discard_escape.simps) auto
  qed
qed

lemma wstdin_clear_special [simp]: "wstdin (clear_special st) = wstdin st"
  by (simp add: clear_special_def)

lemma wstdin_mark_special [simp]: "wstdin (mark_special st) = wstdin st"
  by (simp add: mark_special_def)

lemma wstdin_handle_backspace [simp]: "wstdin (handle_backspace st) = wstdin st"
  by (simp add: handle_backspace_def split: prod.splits)

lemma wstdin_handle_insert [simp]: "wstdin (handle_insert E c st) = wstdin st"
  by (simp add: handle_insert_def Let_def split: prod.splits)

lemma wstdin_handle_escape: "length (wstdin (handle_escape E st)) \<le> length (wstdin st)"
proof -
  obtain code s' where g: "getchar32 (platform E) (wstdin st) = (code, s')"
    by (cases "getchar32 (platform E) (wstdin st)")
  have "length s' \<le> length (wstdin st)" using g by (rule getchar32_length)
  moreover have "length (discard_escape (platform E) s') \<le> length s'"
    by (rule discard_escape_length)
  ultimately show ?thesis using g by (simp add: handle_escape_def)
qed

lemma readline_iteration_shorter:
  assumes "readline_iteration E st = Continue st'"
  shows "length (wstdin st') < length (wstdin st)"
proof -
  obtain c s1 where g: "getchar32 (platform E) (wstdin st) = (c, s1)"
    by (cases "getchar32 (platform E) (wstdin st)")
  have ne: "c \<noteq> WEOF (platform E)" using assms g
    by (auto simp: readline_iteration_def split: if_splits)
  have lt: "length s1 < length (wstdin st)" using g ne by (rule getchar32_shorter)
  have "length (wstdin (handle_escape E (clear_special (st\<lparr>wstdin := s1\<rparr>)))) \<le> length s1"
    using wstdin_handle_escape [of E "clear_special (st\<lparr>wstdin := s1\<rparr>)"] by simp
  then show ?thesis using assms g lt
    by (auto simp: readline_iteration_def Let_def split: if_splits)
qed

function readline_while :: "console_env \<Rightarrow> readline_state \<Rightarrow> readline_state" where
  "readline_while E st =
     (case readline_iteration E st of
        Break st' \<Rightarrow> st'
      | Continue st' \<Rightarrow> readline_while E st')"
  by pat_completeness auto
termination
  by (relation "measure (\<lambda>(E, st). length (wstdin st))")
     (auto dest: readline_iteration_shorter)

declare readline_while.simps [simp del]

text \<open>Lines 303 to 334: the pending marker is resolved and the result is formed.\<close>

definition readline_finish :: "readline_state \<Rightarrow> bool \<times> readline_state" where
  "readline_finish st =
     (let has_more = multiline (io (console_state st)) in
      if is_special_char st
      then (let last_ch = last (line st); ln = butlast (line st)
            in if last_ch = 0x5C
               then (\<not> has_more, st\<lparr>line := ln @ [0x0A]\<rparr>)
               else (False, st\<lparr>line := (if length ln = 1 \<and> last ln = 0x20 then [] else ln)\<rparr>))
      else if end_of_stream st then (False, st)
      else (has_more, st\<lparr>line := line st @ [0x0A]\<rparr>))"

text \<open>
  \<open>console_readline_advanced\<close>: the result is the returned flag and the state at the
  return, whose \<open>line\<close> is the text handed back to the caller.
\<close>

definition readline_start :: "ConsoleState \<Rightarrow> wint list \<Rightarrow> scan_reply list \<Rightarrow> readline_state" where
  "readline_start cs input tty =
     \<lparr>console_state = cs, line = [], widths = [], is_special_char = False,
      end_of_stream = False, wstdin = input, tty_in = tty\<rparr>"

definition console_readline_advanced ::
  "console_env \<Rightarrow> ConsoleState \<Rightarrow> wint list \<Rightarrow> scan_reply list \<Rightarrow> bool \<times> readline_state" where
  "console_readline_advanced E cs input tty =
     readline_finish (readline_while E (readline_start cs input tty))"

text \<open>
  The state of the loop after its first \<open>n\<close> turns (fewer when it left earlier), to
  speak about a read while it is under way.
\<close>

fun readline_steps :: "console_env \<Rightarrow> nat \<Rightarrow> readline_state \<Rightarrow> readline_state" where
  "readline_steps E 0 st = st"
| "readline_steps E (Suc n) st =
     (case readline_iteration E st of
        Break st' \<Rightarrow> st'
      | Continue st' \<Rightarrow> readline_steps E n st')"

text \<open>
  A unit that \<open>getchar32\<close> hands on as it is, and a character that the loop appends
  (neither a line end, nor an end of input, nor escape, nor backspace).
\<close>

definition plain_unit :: "wchar_platform \<Rightarrow> wint \<Rightarrow> bool" where
  "plain_unit p u \<longleftrightarrow>
     u \<noteq> WEOF p \<and> (p = WCHAR16 \<longrightarrow> u \<le> 0xFFFF \<and> \<not> (0xD800 \<le> u \<and> u \<le> 0xDFFF))"

definition is_ordinary :: "wchar_platform \<Rightarrow> wint \<Rightarrow> bool" where
  "is_ordinary p u \<longleftrightarrow>
     plain_unit p u \<and> u \<noteq> 0x0D \<and> u \<noteq> 0x0A \<and> u \<noteq> 0x04 \<and> u \<noteq> 0x1B
     \<and> u \<noteq> 0x08 \<and> u \<noteq> 0x7F"

text \<open>
  A character that the loop appends to the line: the value that \<open>getchar32\<close> returned
  passes the tests of lines 244 and 248 (no line end, no end of input) and is neither the
  escape of line 259 nor a backspace of line 270, so the branch of lines 284 to 294 runs.
  On \<open>WCHAR16\<close> it may be a code point read from a surrogate pair.
\<close>

definition is_appended :: "wchar_platform \<Rightarrow> char32 \<Rightarrow> bool" where
  "is_appended p c \<longleftrightarrow>
     c \<noteq> 0x0D \<and> c \<noteq> 0x0A \<and> c \<noteq> WEOF p \<and> c \<noteq> 0x04 \<and> c \<noteq> 0x1B \<and> c \<noteq> 0x08
     \<and> c \<noteq> 0x7F"

text \<open>The test of lines 296 and 304 on a line: it ends with a backslash or a slash.\<close>

definition is_marker :: "byte list \<Rightarrow> bool" where
  "is_marker ln \<longleftrightarrow> ln \<noteq> [] \<and> (last ln = 0x5C \<or> last ln = 0x2F)"

section \<open>The simple read\<close>

text \<open>
  \<open>std::cin\<close> belongs to the C++ library, not to the repository. It is modelled by the
  bytes not yet read and the three state bits of a stream, with the four operations the
  code calls, as the C++ standard describes them: \<open>std::getline\<close> (a stream that is
  not good fails and leaves the string alone; otherwise the string is erased and filled
  up to a newline, which is used up, or up to the end of the input, which sets
  \<open>eofbit\<close>, and \<open>failbit\<close> as well when nothing was read), the extraction operator for a
  \<open>char\<close> (white space is skipped first), \<open>clear()\<close> and \<open>ignore(max, '\n')\<close>.
\<close>

record istream =
  rdbuf :: "byte list"
  eofbit :: bool
  failbit :: bool
  badbit :: bool

definition stream_good :: "istream \<Rightarrow> bool" where
  "stream_good s \<longleftrightarrow> \<not> eofbit s \<and> \<not> failbit s \<and> \<not> badbit s"

text \<open>The test \<open>!stream\<close>.\<close>

definition stream_fail :: "istream \<Rightarrow> bool" where
  "stream_fail s \<longleftrightarrow> failbit s \<or> badbit s"

definition std_getline :: "istream \<Rightarrow> byte list \<Rightarrow> istream \<times> byte list" where
  "std_getline s str =
     (if \<not> stream_good s then (s\<lparr>failbit := True\<rparr>, str)
      else
        (case dropWhile (\<lambda>b. b \<noteq> 0x0A) (rdbuf s) of
           [] \<Rightarrow> (s\<lparr>rdbuf := [], eofbit := True, failbit := (rdbuf s = [])\<rparr>, rdbuf s)
         | nl # rest \<Rightarrow> (s\<lparr>rdbuf := rest\<rparr>, takeWhile (\<lambda>b. b \<noteq> 0x0A) (rdbuf s))))"

definition isspace :: "byte \<Rightarrow> bool" where
  "isspace b \<longleftrightarrow> b = 0x20 \<or> (0x09 \<le> b \<and> b \<le> 0x0D)"

definition stream_extract_char :: "istream \<Rightarrow> istream \<times> byte option" where
  "stream_extract_char s =
     (if \<not> stream_good s then (s\<lparr>failbit := True\<rparr>, None)
      else
        (case dropWhile isspace (rdbuf s) of
           [] \<Rightarrow> (s\<lparr>rdbuf := [], eofbit := True, failbit := True\<rparr>, None)
         | ch # rest \<Rightarrow> (s\<lparr>rdbuf := rest\<rparr>, Some ch)))"

definition stream_clear :: "istream \<Rightarrow> istream" where
  "stream_clear s = s\<lparr>eofbit := False, failbit := False, badbit := False\<rparr>"

definition stream_ignore_line :: "istream \<Rightarrow> istream" where
  "stream_ignore_line s =
     (if \<not> stream_good s then s\<lparr>failbit := True\<rparr>
      else
        (case dropWhile (\<lambda>b. b \<noteq> 0x0A) (rdbuf s) of
           [] \<Rightarrow> s\<lparr>rdbuf := [], eofbit := True\<rparr>
         | nl # rest \<Rightarrow> s\<lparr>rdbuf := rest\<rparr>))"

definition EOF :: int where
  "EOF = - 1"

text \<open>
  The functions of the simple read take the console state, \<open>std::cin\<close> and, where the
  source has the parameter, the string, and give them back after the result.
\<close>

definition console_input_character :: "ConsoleState \<Rightarrow> istream \<Rightarrow> int \<times> ConsoleState \<times> istream" where
  "console_input_character cs cin =
     (case stream_extract_char cin of
        (cin1, None) \<Rightarrow>
          (EOF, console_set_display_mode CONSOLE_ERROR cs,
           stream_ignore_line (stream_clear cin1))
      | (cin1, Some control_ch) \<Rightarrow> (uint control_ch, cs, cin1))"

definition console_input_string ::
  "ConsoleState \<Rightarrow> istream \<Rightarrow> byte list \<Rightarrow> bool \<times> byte list \<times> ConsoleState \<times> istream" where
  "console_input_string cs cin ln =
     (case std_getline cin ln of
        (cin1, ln1) \<Rightarrow>
          if stream_fail cin1
          then (False, [], console_set_display_mode CONSOLE_ERROR cs, cin1)
          else (True, ln1, cs, cin1))"

definition console_input_control :: "ConsoleState \<Rightarrow> istream \<Rightarrow> int \<times> ConsoleState \<times> istream" where
  "console_input_control cs cin =
     (case console_input_character cs cin of
        (control_ch, cs1, cin1) \<Rightarrow>
          if control_ch = EOF then (EOF, cs1, cin1)
          else if control_ch = 0x6D
          then (control_ch, cs1\<lparr>io := (io cs1)\<lparr>multiline := \<not> multiline (io cs1)\<rparr>\<rparr>, cin1)
          else (control_ch, cs1, cin1))"

definition console_readline_simple ::
  "ConsoleState \<Rightarrow> istream \<Rightarrow> byte list \<Rightarrow> bool \<times> byte list \<times> ConsoleState \<times> istream" where
  "console_readline_simple cs cin ln =
     (case console_input_string cs cin ln of
        (ok, ln1, cs1, cin1) \<Rightarrow>
          if \<not> ok then (False, ln1, cs1, cin1)
          else if ln1 = [] then (True, ln1, console_set_display_mode CONSOLE_ERROR cs1, cin1)
          else
            (case (if last ln1 = 27
                   then (case console_input_control cs1 cin1 of (c, cs2, cin2) \<Rightarrow> (cs2, cin2))
                   else (cs1, cin1)) of
               (cs2, cin2) \<Rightarrow>
                 (True, if \<not> multiline (io cs2) then ln1 @ [0x0A] else ln1, cs2, cin2)))"

text \<open>
  \<open>console_readline\<close>: the returned flag, the line, and the console state and the three
  inputs after the call.
\<close>

definition console_readline ::
  "console_env \<Rightarrow> ConsoleState \<Rightarrow> istream \<Rightarrow> wint list \<Rightarrow> scan_reply list \<Rightarrow> byte list
   \<Rightarrow> bool \<times> byte list \<times> ConsoleState \<times> istream \<times> wint list \<times> scan_reply list" where
  "console_readline E cs cin input tty ln =
     (let cs1 = console_set_display_mode CONSOLE_INPUT cs in
      if simple (io cs1)
      then (case console_readline_simple cs1 cin ln of
              (ok, ln1, cs2, cin1) \<Rightarrow> (ok, ln1, cs2, cin1, input, tty))
      else (case console_readline_advanced E cs1 input tty of
              (has_more, st) \<Rightarrow>
                (has_more, line st, console_state st, cin, wstdin st, tty_in st)))"

text \<open>An input at its end, for examples.\<close>

definition empty_cin :: istream where
  "empty_cin = \<lparr>rdbuf = [], eofbit = False, failbit = False, badbit = False\<rparr>"

section \<open>Standard input as bytes\<close>

text \<open>
  Modelled from the spec: the decoder of UTF-8 bytes. The bytes of standard input reach
  \<open>getchar32\<close> through \<open>getwchar\<close> of the C library, which under a UTF-8 locale
  turns each UTF-8 sequence into one wide character; that conversion is not in the
  repository. \<open>utf8_decode\<close> reads the bytes of one character by the standard UTF-8
  length and shift rules, the inverse of the ranges of \<open>encode_utf8\<close> (up to 0x7F, 0x7FF,
  0xFFFF, 0x10FFFF), and accepts the shortest form only, no surrogate value and nothing
  above U+10FFFF.
\<close>

fun utf8_decode :: "byte list \<Rightarrow> char32 option" where
  "utf8_decode [b0] = (if b0 AND 0x80 = 0 then Some (ucast b0) else None)"
| "utf8_decode [b0, b1] =
     (if b0 AND 0xE0 = 0xC0 \<and> b1 AND 0xC0 = 0x80
      then (let c = push_bit 6 (ucast (b0 AND 0x1F)) OR ucast (b1 AND 0x3F)
            in if 0x80 \<le> c then Some c else None)
      else None)"
| "utf8_decode [b0, b1, b2] =
     (if b0 AND 0xF0 = 0xE0 \<and> b1 AND 0xC0 = 0x80 \<and> b2 AND 0xC0 = 0x80
      then (let c = push_bit 12 (ucast (b0 AND 0x0F)) OR push_bit 6 (ucast (b1 AND 0x3F))
                    OR ucast (b2 AND 0x3F)
            in if 0x800 \<le> c \<and> \<not> (0xD800 \<le> c \<and> c \<le> 0xDFFF) then Some c else None)
      else None)"
| "utf8_decode [b0, b1, b2, b3] =
     (if b0 AND 0xF8 = 0xF0 \<and> b1 AND 0xC0 = 0x80 \<and> b2 AND 0xC0 = 0x80 \<and> b3 AND 0xC0 = 0x80
      then (let c = push_bit 18 (ucast (b0 AND 0x07)) OR push_bit 12 (ucast (b1 AND 0x3F))
                    OR push_bit 6 (ucast (b2 AND 0x3F)) OR ucast (b3 AND 0x3F)
            in if 0x10000 \<le> c \<and> c \<le> 0x10FFFF then Some c else None)
      else None)"
| "utf8_decode bs = None"

text \<open>
  Modelled from the spec: the wide characters that the C library delivers for one code
  point. Where wide characters have 32 bits it is the code point; where they have 16 bits
  a code point from U+10000 on is the pair of a high and a low surrogate unit that the
  decoder of section 4.1 of the specification reassembles.
\<close>

definition utf16_units :: "char32 \<Rightarrow> wint list" where
  "utf16_units c =
     (if c < 0x10000 then [c]
      else [0xD800 OR drop_bit 10 (c - 0x10000), 0xDC00 OR ((c - 0x10000) AND 0x3FF)])"

definition wide_units :: "wchar_platform \<Rightarrow> char32 \<Rightarrow> wint list" where
  "wide_units p c = (case p of WCHAR32 \<Rightarrow> [c] | WCHAR16 \<Rightarrow> utf16_units c)"

text \<open>
  Modelled from the spec: what \<open>getwchar\<close> delivers for the bytes of one character on
  standard input, \<open>WEOF\<close> when the bytes are not a character.
\<close>

definition utf8_locale_input :: "wchar_platform \<Rightarrow> byte list \<Rightarrow> wint list" where
  "utf8_locale_input p bytes =
     (case utf8_decode bytes of None \<Rightarrow> [WEOF p] | Some c \<Rightarrow> wide_units p c)"

section \<open>Runs of characters and well-formed lines\<close>

text \<open>
  One turn of the loop on a character that is appended, a run of such turns, and the
  bytes that \<open>append_utf8\<close> adds for a character.
\<close>

definition insert_turn :: "console_env \<Rightarrow> char32 \<Rightarrow> readline_state \<Rightarrow> readline_state" where
  "insert_turn E c st = mark_special (handle_insert E c (clear_special st))"

fun feed :: "console_env \<Rightarrow> wint list \<Rightarrow> readline_state \<Rightarrow> readline_state" where
  "feed E [] st = st"
| "feed E (c # cs) st = feed E cs (insert_turn E c st)"

definition encode :: "char32 \<Rightarrow> byte list" where
  "encode c = append_utf8 c []"

text \<open>
  The number of characters in a line: the bytes that start one, by the test of
  \<open>pop_back_utf8_char\<close>.
\<close>

definition codepoint_count :: "byte list \<Rightarrow> nat" where
  "codepoint_count ln = length (filter (\<lambda>b. b AND 0xC0 \<noteq> 0x80) ln)"


text \<open>The line is the encoding of \<open>n\<close> code points.\<close>

definition encoded_line :: "byte list \<Rightarrow> nat \<Rightarrow> bool" where
  "encoded_line ln n \<longleftrightarrow>
     (\<exists>cps. length cps = n \<and> (\<forall>c\<in>set cps. c \<le> 0x10FFFF) \<and> ln = concat (map encode cps))"


section \<open>Reading single characters\<close>


lemma and_ffff: "u \<le> 0xFFFF \<Longrightarrow> u AND 0xFFFF = (u::32 word)"
proof -
  assume "u \<le> 0xFFFF"
  then have "u < 2 ^ 16" by (simp add: word_less_nat_alt word_le_nat_alt)
  then have "u AND mask 16 = u" by (rule less_mask_eq)
  then show ?thesis by (simp add: mask_eq_exp_minus_1)
qed

lemma getchar32_plain:
  assumes "plain_unit p u"
  shows "getchar32 p (u # s) = (u, s)"
proof (cases p)
  case WCHAR32
  then show ?thesis using assms by (simp add: plain_unit_def getchar32_def getwchar_def)
next
  case WCHAR16
  then have u: "u \<noteq> WEOF WCHAR16" "u \<le> 0xFFFF" "\<not> (0xD800 \<le> u \<and> u \<le> 0xDFFF)"
    using assms by (simp_all add: plain_unit_def)
  have "\<not> (0xD800 \<le> u \<and> u \<le> 0xDBFF)" using u(3) by (auto simp: word_le_nat_alt)
  then show ?thesis using WCHAR16 u
    by (auto simp: getchar32_def getwchar_def and_ffff)
qed

lemma plain_unit_small: "u \<le> 0x7F \<Longrightarrow> plain_unit p u"
proof -
  assume a: "u \<le> 0x7F"
  then have "u \<le> 0xFFFF" "\<not> 0xD800 \<le> u" "u \<noteq> 0xFFFF" "u \<noteq> 0xFFFFFFFF"
    by (auto simp: word_le_nat_alt)
  then show ?thesis by (cases p) (auto simp: plain_unit_def WEOF_def)
qed

lemma getchar32_small: "u \<le> 0x7F \<Longrightarrow> getchar32 p (u # s) = (u, s)"
  by (rule getchar32_plain [OF plain_unit_small])

lemma WEOF_not_small: "u \<le> 0x7F \<Longrightarrow> u \<noteq> WEOF p"
  using plain_unit_small [of u p] by (simp add: plain_unit_def)

subsection \<open>Fields after each part of an iteration\<close>

lemma clear_special_fields [simp]:
  "line (clear_special st) = line st"
  "widths (clear_special st) = widths st"
  "tty_in (clear_special st) = tty_in st"
  "end_of_stream (clear_special st) = end_of_stream st"
  "is_special_char (clear_special st) = False"
  by (simp_all add: clear_special_def)

lemma mark_special_fields [simp]:
  "line (mark_special st) = line st"
  "widths (mark_special st) = widths st"
  "tty_in (mark_special st) = tty_in st"
  "end_of_stream (mark_special st) = end_of_stream st"
  by (simp_all add: mark_special_def)

lemma is_special_mark_special:
  "is_special_char (mark_special st) \<longleftrightarrow>
     is_special_char st \<or> (line st \<noteq> [] \<and> (last (line st) = 0x5C \<or> last (line st) = 0x2F))"
  by (simp add: mark_special_def)

lemma handle_insert_fields [simp]:
  "line (handle_insert E c st) = append_utf8 c (line st)"
  "console_state (handle_insert E c st) = console_state st"
  "is_special_char (handle_insert E c st) = is_special_char st"
  "end_of_stream (handle_insert E c st) = end_of_stream st"
  by (simp_all add: handle_insert_def Let_def split: prod.splits)

lemma multiline_set_display_mode [simp]:
  "multiline (io (console_set_display_mode m cs)) = multiline (io cs)"
  by (simp add: console_set_display_mode_def)

lemma multiline_clear_special [simp]:
  "multiline (io (console_state (clear_special st))) = multiline (io (console_state st))"
  by (simp add: clear_special_def)

lemma multiline_mark_special [simp]:
  "multiline (io (console_state (mark_special st))) = multiline (io (console_state st))"
  by (simp add: mark_special_def)

subsection \<open>The loop on its first character\<close>

lemma readline_iteration_insert:
  assumes "wstdin st = c # s" and "is_ordinary (platform E) c"
  shows "readline_iteration E st
         = Continue (mark_special (handle_insert E c (clear_special (st\<lparr>wstdin := s\<rparr>))))"
proof -
  have g: "getchar32 (platform E) (wstdin st) = (c, s)"
    using assms by (simp add: getchar32_plain is_ordinary_def)
  show ?thesis
    using assms(2) by (simp add: readline_iteration_def g is_ordinary_def plain_unit_def)
qed

lemma readline_while_insert:
  assumes "wstdin st = c # s" and "is_ordinary (platform E) c"
  shows "readline_while E st
         = readline_while E (mark_special (handle_insert E c (clear_special (st\<lparr>wstdin := s\<rparr>))))"
proof -
  have g: "getchar32 (platform E) (wstdin st) = (c, s)"
    using assms by (simp add: getchar32_plain is_ordinary_def)
  have "readline_iteration E st
        = Continue (mark_special (handle_insert E c (clear_special (st\<lparr>wstdin := s\<rparr>))))"
    using assms(2) by (simp add: readline_iteration_def g is_ordinary_def plain_unit_def)
  then show ?thesis by (subst readline_while.simps) simp
qed

lemma readline_while_newline:
  assumes "wstdin st = c # s" and "c = 0x0A \<or> c = 0x0D"
  shows "readline_while E st = st\<lparr>wstdin := s\<rparr>"
proof -
  have "c \<le> 0x7F" using assms(2) by auto
  then have g: "getchar32 (platform E) (wstdin st) = (c, s)"
    using assms(1) by (simp add: getchar32_small)
  have "readline_iteration E st = Break (st\<lparr>wstdin := s\<rparr>)"
    using assms(2) by (auto simp: readline_iteration_def g)
  then show ?thesis by (subst readline_while.simps) simp
qed

lemma is_ordinary_ascii:
  "u \<le> 0x7F \<Longrightarrow> u \<noteq> 0x0D \<Longrightarrow> u \<noteq> 0x0A \<Longrightarrow> u \<noteq> 0x04 \<Longrightarrow> u \<noteq> 0x1B \<Longrightarrow> u \<noteq> 0x08
   \<Longrightarrow> u \<noteq> 0x7F \<Longrightarrow> is_ordinary p u"
  by (simp add: is_ordinary_def plain_unit_small)

section \<open>Bytes of an encoded character\<close>

lemma cont_byte: "(ucast (0x80 OR (x AND 0x3F) :: 32 word) :: 8 word) AND 0xC0 = 0x80"
proof -
  have "6 < k \<Longrightarrow> k < 8 \<Longrightarrow>
        (ucast (push_bit k 1 OR (x AND mask 6) :: 32 word) :: 8 word) AND push_bit 6 (mask 2)
        = push_bit k 1" for k
    by (rule bit_word_eqI) (auto simp: bit_simps)
  from this [of 7] show ?thesis by (simp add: mask_eq_exp_minus_1)
qed

lemma lead2: "(ucast (0xC0 OR (x AND 0x1F) :: 32 word) :: 8 word) AND 0xC0 = 0xC0"
proof -
  have "(ucast (push_bit 6 (mask 2) OR (x AND mask 5) :: 32 word) :: 8 word) AND push_bit 6 (mask 2) = push_bit 6 (mask 2)"
    by (rule bit_word_eqI) (auto simp: bit_simps)
  then show ?thesis by (simp add: mask_eq_exp_minus_1)
qed

lemma lead3: "(ucast (0xE0 OR (x AND 0x0F) :: 32 word) :: 8 word) AND 0xC0 = 0xC0"
proof -
  have "(ucast (push_bit 5 (mask 3) OR (x AND mask 4) :: 32 word) :: 8 word) AND push_bit 6 (mask 2) = push_bit 6 (mask 2)"
    by (rule bit_word_eqI) (auto simp: bit_simps)
  then show ?thesis by (simp add: mask_eq_exp_minus_1)
qed


lemma lead1: "x \<le> 0x7F \<Longrightarrow> (ucast (x :: 32 word) :: 8 word) AND 0xC0 \<noteq> 0x80"
proof -
  assume "x \<le> 0x7F"
  then have "x < 2 ^ 7" by (simp add: word_less_nat_alt word_le_nat_alt)
  then have "x AND mask 7 = x" by (rule less_mask_eq)
  then have "\<not> bit x 7" by (metis bit_and_iff bit_mask_iff less_irrefl)
  then have "\<not> bit ((ucast x :: 8 word) AND 0xC0) 7" by (simp add: bit_simps)
  moreover have "bit (0x80 :: 8 word) 7" by simp
  ultimately show ?thesis by metis
qed

section \<open>Appending and taking back\<close>

lemma append_utf8_encode: "append_utf8 c ln = ln @ encode c"
  by (simp add: append_utf8_def encode_def)

subsection \<open>pop_back_utf8_char takes an encoded character back\<close>

lemma scan_stop: "pop_back_scan l 3 pos = pos" "pop_back_scan l i 0 = 0"
  by (simp_all add: pop_back_scan.simps)

lemma scan_lead:
  "i < 3 \<Longrightarrow> (l ! pos) AND 0xC0 \<noteq> 0x80 \<Longrightarrow> pop_back_scan l i pos = pos"
  by (subst pop_back_scan.simps) simp

lemma scan_cont:
  "i < 3 \<Longrightarrow> 0 < pos \<Longrightarrow> (l ! pos) AND 0xC0 = 0x80
   \<Longrightarrow> pop_back_scan l i pos = pop_back_scan l (Suc i) (pos - 1)"
  by (subst pop_back_scan.simps) simp

lemma pop_back_1:
  assumes "b0 AND 0xC0 \<noteq> 0x80"
  shows "pop_back_utf8_char (ln @ [b0]) = ln"
proof -
  have "pop_back_scan (ln @ [b0]) 0 (length ln) = length ln"
    using assms by (cases "length ln = 0") (simp_all add: scan_stop scan_lead)
  then show ?thesis by (simp add: pop_back_utf8_char_def)
qed

lemma pop_back_2:
  assumes "b0 AND 0xC0 \<noteq> 0x80" "b1 AND 0xC0 = 0x80"
  shows "pop_back_utf8_char (ln @ [b0, b1]) = ln"
proof -
  have "pop_back_scan (ln @ [b0, b1]) 0 (Suc (length ln))
        = pop_back_scan (ln @ [b0, b1]) 1 (length ln)"
    using assms by (subst scan_cont) (simp_all add: nth_append)
  also have "\<dots> = length ln"
    using assms by (cases "length ln = 0") (simp_all add: scan_stop scan_lead nth_append)
  finally show ?thesis by (simp add: pop_back_utf8_char_def)
qed

lemma pop_back_3:
  assumes "b0 AND 0xC0 \<noteq> 0x80" "b1 AND 0xC0 = 0x80" "b2 AND 0xC0 = 0x80"
  shows "pop_back_utf8_char (ln @ [b0, b1, b2]) = ln"
proof -
  have "pop_back_scan (ln @ [b0, b1, b2]) 0 (Suc (Suc (length ln)))
        = pop_back_scan (ln @ [b0, b1, b2]) 1 (Suc (length ln))"
    using assms by (subst scan_cont) (simp_all add: nth_append)
  also have "\<dots> = pop_back_scan (ln @ [b0, b1, b2]) 2 (length ln)"
    using assms by (subst scan_cont) (simp_all add: nth_append numeral_2_eq_2)
  also have "\<dots> = length ln"
    using assms by (cases "length ln = 0") (simp_all add: scan_stop scan_lead nth_append)
  finally show ?thesis by (simp add: pop_back_utf8_char_def)
qed

lemma pop_back_4:
  assumes "b1 AND 0xC0 = 0x80" "b2 AND 0xC0 = 0x80" "b3 AND 0xC0 = 0x80"
  shows "pop_back_utf8_char (ln @ [b0, b1, b2, b3]) = ln"
proof -
  have "pop_back_scan (ln @ [b0, b1, b2, b3]) 0 (Suc (Suc (Suc (length ln))))
        = pop_back_scan (ln @ [b0, b1, b2, b3]) 1 (Suc (Suc (length ln)))"
    using assms by (subst scan_cont) (simp_all add: nth_append)
  also have "\<dots> = pop_back_scan (ln @ [b0, b1, b2, b3]) 2 (Suc (length ln))"
    using assms by (subst scan_cont) (simp_all add: nth_append numeral_2_eq_2)
  also have "\<dots> = pop_back_scan (ln @ [b0, b1, b2, b3]) 3 (length ln)"
    using assms by (subst scan_cont) (simp_all add: nth_append numeral_3_eq_3)
  also have "\<dots> = length ln" by (simp add: scan_stop)
  finally show ?thesis by (simp add: pop_back_utf8_char_def)
qed

lemma pop_back_encode:
  assumes "c \<le> 0x10FFFF"
  shows "pop_back_utf8_char (ln @ encode c) = ln"
proof -
  consider "c \<le> 0x7F" | "\<not> c \<le> 0x7F" "c \<le> 0x7FF" | "\<not> c \<le> 0x7FF" "c \<le> 0xFFFF"
    | "\<not> c \<le> 0xFFFF" by blast
  then show ?thesis
  proof cases
    case 1
    then show ?thesis by (simp add: encode_def append_utf8_def pop_back_1 lead1)
  next
    case 2
    have "c \<le> 0x7FF \<Longrightarrow> \<not> c \<le> 0x7F \<Longrightarrow> encode c = [ucast (0xC0 OR (drop_bit 6 c AND 0x1F)),
               ucast (0x80 OR (c AND 0x3F))]" by (simp add: encode_def append_utf8_def)
    with 2 show ?thesis by (simp add: pop_back_2 lead2 cont_byte)
  next
    case 3
    then have "\<not> c \<le> 0x7F" by (auto simp: word_le_nat_alt)
    with 3 have "encode c = [ucast (0xE0 OR (drop_bit 12 c AND 0x0F)),
               ucast (0x80 OR (drop_bit 6 c AND 0x3F)),
               ucast (0x80 OR (c AND 0x3F))]" by (simp add: encode_def append_utf8_def)
    then show ?thesis by (simp add: pop_back_3 lead3 cont_byte)
  next
    case 4
    then have "\<not> c \<le> 0x7F" "\<not> c \<le> 0x7FF" by (auto simp: word_le_nat_alt)
    with 4 assms have "encode c = [ucast (0xF0 OR (drop_bit 18 c AND 0x07)),
               ucast (0x80 OR (drop_bit 12 c AND 0x3F)),
               ucast (0x80 OR (drop_bit 6 c AND 0x3F)),
               ucast (0x80 OR (c AND 0x3F))]" by (simp add: encode_def append_utf8_def)
    then show ?thesis by (simp add: pop_back_4 cont_byte)
  qed
qed

subsection \<open>A turn that appends\<close>

lemma insert_turn_fields [simp]:
  "line (insert_turn E c st) = line st @ encode c"
  "end_of_stream (insert_turn E c st) = end_of_stream st"
  "wstdin (insert_turn E c st) = wstdin st"
  "multiline (io (console_state (insert_turn E c st))) = multiline (io (console_state st))"
  by (simp_all add: insert_turn_def append_utf8_encode)

lemma is_special_insert_turn [simp]:
  "is_special_char (insert_turn E c st) = is_marker (line st @ encode c)"
  by (simp add: insert_turn_def is_special_mark_special is_marker_def append_utf8_encode)

lemma widths_insert_turn:
  "\<exists>w. widths (insert_turn E c st) = widths st @ [w]"
  by (simp add: insert_turn_def handle_insert_def Let_def split: prod.splits)

lemma butlast_widths_insert_turn [simp]:
  "butlast (widths (insert_turn E c st)) = widths st"
  using widths_insert_turn [of E c st] by auto

lemma widths_insert_turn_nonempty [simp]: "widths (insert_turn E c st) \<noteq> []"
  using widths_insert_turn [of E c st] by auto

lemma length_widths_insert_turn [simp]:
  "length (widths (insert_turn E c st)) = Suc (length (widths st))"
  using widths_insert_turn [of E c st] by auto

lemma clear_special_wstdin:
  "clear_special (st\<lparr>wstdin := s\<rparr>) = (clear_special st)\<lparr>wstdin := s\<rparr>"
  by (simp add: clear_special_def)

lemma handle_insert_wstdin:
  "handle_insert E c (st\<lparr>wstdin := s\<rparr>) = (handle_insert E c st)\<lparr>wstdin := s\<rparr>"
  by (simp add: handle_insert_def Let_def split: prod.splits)

lemma mark_special_wstdin:
  "mark_special (st\<lparr>wstdin := s\<rparr>) = (mark_special st)\<lparr>wstdin := s\<rparr>"
  by (simp add: mark_special_def)

lemma insert_turn_wstdin:
  "insert_turn E c (st\<lparr>wstdin := s\<rparr>) = (insert_turn E c st)\<lparr>wstdin := s\<rparr>"
  by (simp add: insert_turn_def clear_special_wstdin handle_insert_wstdin mark_special_wstdin)

lemma readline_iteration_ordinary:
  assumes "wstdin st = c # s" and "is_ordinary (platform E) c"
  shows "readline_iteration E st = Continue ((insert_turn E c st)\<lparr>wstdin := s\<rparr>)"
  using readline_iteration_insert [OF assms]
  by (simp add: insert_turn_def [symmetric] insert_turn_wstdin)

subsection \<open>A run of appended characters\<close>

lemma feed_snoc: "feed E (cps @ [c]) st = insert_turn E c (feed E cps st)"
  by (induction cps arbitrary: st) simp_all

lemma feed_wstdin: "feed E cps (st\<lparr>wstdin := s\<rparr>) = (feed E cps st)\<lparr>wstdin := s\<rparr>"
  by (induction cps arbitrary: st) (simp_all add: insert_turn_wstdin)

lemma line_feed: "line (feed E cps st) = line st @ concat (map encode cps)"
  by (induction cps arbitrary: st) simp_all

lemma length_widths_feed: "length (widths (feed E cps st)) = length (widths st) + length cps"
  by (induction cps arbitrary: st) simp_all

lemma multiline_feed [simp]:
  "multiline (io (console_state (feed E cps st))) = multiline (io (console_state st))"
  by (induction cps arbitrary: st) simp_all

lemma end_of_stream_feed [simp]: "end_of_stream (feed E cps st) = end_of_stream st"
  by (induction cps arbitrary: st) simp_all

lemma is_special_feed:
  "cps \<noteq> [] \<Longrightarrow> is_special_char (feed E cps st) = is_marker (line (feed E cps st))"
  by (induction cps rule: rev_induct) (simp_all add: feed_snoc)

lemma readline_steps_feed:
  assumes "\<forall>c\<in>set cps. is_ordinary (platform E) c" and "wstdin st = cps @ rest"
  shows "readline_steps E (length cps + n) st = readline_steps E n ((feed E cps st)\<lparr>wstdin := rest\<rparr>)"
  using assms
proof (induction cps arbitrary: st)
  case Nil
  then have "st\<lparr>wstdin := rest\<rparr> = st" by simp
  then show ?case by simp
next
  case (Cons c cps)
  have it: "readline_iteration E st = Continue ((insert_turn E c st)\<lparr>wstdin := cps @ rest\<rparr>)"
    using Cons.prems by (intro readline_iteration_ordinary) simp_all
  have "readline_steps E (length cps + n) ((insert_turn E c st)\<lparr>wstdin := cps @ rest\<rparr>)
        = readline_steps E n ((feed E cps ((insert_turn E c st)\<lparr>wstdin := cps @ rest\<rparr>))\<lparr>wstdin := rest\<rparr>)"
    using Cons.prems by (intro Cons.IH) simp_all
  then show ?case by (simp add: it feed_wstdin)
qed

lemma readline_while_feed:
  assumes "\<forall>c\<in>set cps. is_ordinary (platform E) c" and "wstdin st = cps @ rest"
  shows "readline_while E st = readline_while E ((feed E cps st)\<lparr>wstdin := rest\<rparr>)"
  using assms
proof (induction cps arbitrary: st)
  case Nil
  then have "st\<lparr>wstdin := rest\<rparr> = st" by simp
  then show ?case by simp
next
  case (Cons c cps)
  have it: "readline_iteration E st = Continue ((insert_turn E c st)\<lparr>wstdin := cps @ rest\<rparr>)"
    using Cons.prems by (intro readline_iteration_ordinary) simp_all
  have "readline_while E ((insert_turn E c st)\<lparr>wstdin := cps @ rest\<rparr>)
        = readline_while E ((feed E cps ((insert_turn E c st)\<lparr>wstdin := cps @ rest\<rparr>))\<lparr>wstdin := rest\<rparr>)"
    using Cons.prems by (intro Cons.IH) simp_all
  moreover have "readline_while E st = readline_while E ((insert_turn E c st)\<lparr>wstdin := cps @ rest\<rparr>)"
    by (subst readline_while.simps) (simp add: it)
  ultimately show ?case by (simp add: feed_wstdin)
qed

subsection \<open>Continuation markers\<close>

lemma readline_marker_line:
  assumes "\<forall>c\<in>set cps. is_ordinary (platform E) c" and "cps \<noteq> []"
    and "nl = 0x0A \<or> nl = 0x0D"
  shows "readline_while E (readline_start cs (cps @ nl # rest) tty)
         = (feed E cps (readline_start cs (cps @ nl # rest) tty))\<lparr>wstdin := rest\<rparr>"
proof -
  let ?s0 = "readline_start cs (cps @ nl # rest) tty"
  have "readline_while E ?s0 = readline_while E ((feed E cps ?s0)\<lparr>wstdin := nl # rest\<rparr>)"
    using assms(1) by (rule readline_while_feed) (simp add: readline_start_def)
  also have "\<dots> = (feed E cps ?s0)\<lparr>wstdin := nl # rest\<rparr>\<lparr>wstdin := rest\<rparr>"
    using assms(3) by (intro readline_while_newline) simp_all
  finally show ?thesis by simp
qed

subsection \<open>Backspace\<close>

lemma getchar32_backspace:
  "bs = 0x08 \<or> bs = 0x7F \<Longrightarrow> getchar32 p (bs # s) = (bs, s)"
  by (rule getchar32_small) auto

lemma WEOF_not_backspace: "bs = 0x08 \<or> bs = 0x7F \<Longrightarrow> bs \<noteq> WEOF p"
  by (rule WEOF_not_small) auto

lemma readline_iteration_backspace:
  assumes "wstdin st = bs # s" and "bs = 0x08 \<or> bs = 0x7F"
  shows "readline_iteration E st
         = Continue (mark_special (handle_backspace (clear_special (st\<lparr>wstdin := s\<rparr>))))"
proof -
  have g: "getchar32 (platform E) (wstdin st) = (bs, s)"
    using assms by (simp add: getchar32_backspace)
  have "bs \<noteq> WEOF (platform E)" using assms(2) by (rule WEOF_not_backspace)
  then show ?thesis using assms(2) by (auto simp: readline_iteration_def g)
qed

lemma handle_backspace_fields:
  "widths st \<noteq> [] \<Longrightarrow> line (handle_backspace st) = fst (pop_widths (line st) (widths st))"
  "widths st \<noteq> [] \<Longrightarrow> widths (handle_backspace st) = snd (pop_widths (line st) (widths st))"
  by (simp_all add: handle_backspace_def split: prod.splits)

lemma widths_feed_start [simp]:
  "widths st = [] \<Longrightarrow> widths (feed E cps st) = [] \<longleftrightarrow> cps = []"
  using length_widths_feed [of E cps st] by auto

text \<open>
  The do-while of lines 273 to 282 after a run of appended characters: it stops at the
  last character whose recorded width is not 0, or at the first character when there is none.
\<close>

lemma pop_widths_feed:
  assumes "\<forall>c\<in>set cps. c \<le> 0x10FFFF" and "cps \<noteq> []" and "widths st = []"
  shows "\<exists>k<length cps.
           pop_widths (line (feed E cps st)) (widths (feed E cps st))
             = (line (feed E (take k cps) st), widths (feed E (take k cps) st))
           \<and> (\<forall>i. k < i \<and> i < length cps \<longrightarrow> widths (feed E cps st) ! i = 0)
           \<and> (widths (feed E cps st) ! k \<noteq> 0 \<or> k = 0)"
  using assms(1,2)
proof (induction cps rule: rev_induct)
  case Nil
  then show ?case by simp
next
  case (snoc c xs)
  let ?f = "feed E xs st"
  have c: "c \<le> 0x10FFFF" using snoc.prems by simp
  have pop: "pop_back_utf8_char (line ?f @ encode c) = line ?f"
    using c by (rule pop_back_encode)
  obtain w where w: "widths (insert_turn E c ?f) = widths ?f @ [w]"
    using widths_insert_turn by blast
  have empty: "widths ?f = [] \<longleftrightarrow> xs = []" using assms(3) by simp
  have len: "length (widths ?f) = length xs" using assms(3) by (simp add: length_widths_feed)
  have fs: "line (feed E (xs @ [c]) st) = line ?f @ encode c"
      "widths (feed E (xs @ [c]) st) = widths ?f @ [w]"
    by (simp_all add: feed_snoc w)
  show ?case
  proof (cases "w = 0 \<and> xs \<noteq> []")
    case True
    have "\<forall>c\<in>set xs. c \<le> 0x10FFFF" using snoc.prems by simp
    then have "\<exists>k<length xs.
           pop_widths (line ?f) (widths ?f)
             = (line (feed E (take k xs) st), widths (feed E (take k xs) st))
           \<and> (\<forall>i. k < i \<and> i < length xs \<longrightarrow> widths ?f ! i = 0)
           \<and> (widths ?f ! k \<noteq> 0 \<or> k = 0)"
      using True by (intro snoc.IH) simp_all
    then obtain k where k: "k < length xs"
        "pop_widths (line ?f) (widths ?f)
           = (line (feed E (take k xs) st), widths (feed E (take k xs) st))"
        "\<forall>i. k < i \<and> i < length xs \<longrightarrow> widths ?f ! i = 0"
        "widths ?f ! k \<noteq> 0 \<or> k = 0"
      by blast
    have "pop_widths (line ?f @ encode c) (widths ?f @ [w]) = pop_widths (line ?f) (widths ?f)"
      using True empty by (subst pop_widths.simps) (simp add: pop)
    then have 1: "pop_widths (line (feed E (xs @ [c]) st)) (widths (feed E (xs @ [c]) st))
          = (line (feed E (take k (xs @ [c])) st), widths (feed E (take k (xs @ [c])) st))"
      using k by (simp only: fs) simp
    have 2: "k < length (xs @ [c])" using k(1) by simp
    have 3: "\<forall>i. k < i \<and> i < length (xs @ [c]) \<longrightarrow> widths (feed E (xs @ [c]) st) ! i = 0"
    proof (intro allI impI)
      fix i assume i: "k < i \<and> i < length (xs @ [c])"
      show "widths (feed E (xs @ [c]) st) ! i = 0"
      proof (cases "i < length xs")
        case True
        then show ?thesis using k(3) i by (simp add: fs nth_append len)
      next
        case False
        then have "i = length xs" using i by simp
        then show ?thesis using \<open>w = 0 \<and> xs \<noteq> []\<close> by (simp add: fs nth_append len)
      qed
    qed
    have 4: "widths (feed E (xs @ [c]) st) ! k \<noteq> 0 \<or> k = 0"
      using k(1,4) by (simp add: fs nth_append len)
    from 1 2 3 4 show ?thesis by blast
  next
    case False
    have "pop_widths (line ?f @ encode c) (widths ?f @ [w]) = (line ?f, widths ?f)"
      using False empty by (subst pop_widths.simps) (auto simp: pop)
    then have 1: "pop_widths (line (feed E (xs @ [c]) st)) (widths (feed E (xs @ [c]) st))
          = (line (feed E (take (length xs) (xs @ [c])) st),
             widths (feed E (take (length xs) (xs @ [c])) st))"
      by (simp only: fs) simp
    have 2: "length xs < length (xs @ [c])" by simp
    have 3: "\<forall>i. length xs < i \<and> i < length (xs @ [c])
                 \<longrightarrow> widths (feed E (xs @ [c]) st) ! i = 0" by simp
    have 4: "widths (feed E (xs @ [c]) st) ! length xs \<noteq> 0 \<or> length xs = 0"
      using False by (auto simp: fs nth_append len)
    from 1 2 3 4 show ?thesis by blast
  qed
qed


lemma readline_start_wstdin:
  "readline_start cs input tty = (readline_start cs [] tty)\<lparr>wstdin := input\<rparr>"
  by (simp add: readline_start_def)

lemma feed_start:
  "feed E cps (readline_start cs input tty) = (feed E cps (readline_start cs [] tty))\<lparr>wstdin := input\<rparr>"
  by (subst readline_start_wstdin) (simp add: feed_wstdin)

text \<open>
  A turn of the loop on any character that is appended, however many units
  \<open>getchar32\<close> read for it.
\<close>

lemma readline_iteration_appended:
  assumes "getchar32 (platform E) (wstdin st) = (c, s)" and "is_appended (platform E) c"
  shows "readline_iteration E st = Continue ((insert_turn E c st)\<lparr>wstdin := s\<rparr>)"
  using assms(2)
  by (simp add: readline_iteration_def assms(1) is_appended_def insert_turn_def
        clear_special_wstdin handle_insert_wstdin mark_special_wstdin)

text \<open>
  The input as groups of units, one group for each character: \<open>getchar32\<close> reads the
  group and returns the character, whatever follows.
\<close>

lemma readline_steps_groups:
  assumes "list_all2 (\<lambda>us c. \<forall>rest. getchar32 (platform E) (us @ rest) = (c, rest)) groups cps"
    and "\<forall>c\<in>set cps. is_appended (platform E) c"
    and "wstdin st = concat groups @ rest"
  shows "readline_steps E (length cps + n) st
         = readline_steps E n ((feed E cps st)\<lparr>wstdin := rest\<rparr>)"
  using assms
proof (induction groups cps arbitrary: st rule: list_all2_induct)
  case Nil
  then have "st\<lparr>wstdin := rest\<rparr> = st" by simp
  then show ?case by simp
next
  case (Cons us groups c cps)
  have "getchar32 (platform E) (wstdin st) = (c, concat groups @ rest)"
    using Cons.hyps(1) Cons.prems(2) by simp
  then have it: "readline_iteration E st
                 = Continue ((insert_turn E c st)\<lparr>wstdin := concat groups @ rest\<rparr>)"
    using Cons.prems(1) by (intro readline_iteration_appended) simp_all
  have "readline_steps E (length cps + n) ((insert_turn E c st)\<lparr>wstdin := concat groups @ rest\<rparr>)
        = readline_steps E n
            ((feed E cps ((insert_turn E c st)\<lparr>wstdin := concat groups @ rest\<rparr>))\<lparr>wstdin := rest\<rparr>)"
    using Cons.prems(1) by (intro Cons.IH) simp_all
  then show ?case by (simp add: it feed_wstdin)
qed

lemma readline_steps_groups_start:
  assumes "list_all2 (\<lambda>us c. \<forall>rest. getchar32 (platform E) (us @ rest) = (c, rest)) groups cps"
    and "\<forall>c\<in>set cps. is_appended (platform E) c"
  shows "readline_steps E (length cps + n) (readline_start cs (concat groups @ rest) tty)
         = readline_steps E n ((feed E cps (readline_start cs [] tty))\<lparr>wstdin := rest\<rparr>)"
proof -
  have "readline_steps E (length cps + n) (readline_start cs (concat groups @ rest) tty)
        = readline_steps E n
            ((feed E cps (readline_start cs (concat groups @ rest) tty))\<lparr>wstdin := rest\<rparr>)"
    using assms by (rule readline_steps_groups) (simp add: readline_start_def)
  then show ?thesis by (simp add: feed_start [of E cps cs "concat groups @ rest"])
qed

section \<open>Backspace after a run of characters\<close>

text \<open>
  C1 (as the code has it). Let \<open>N \<ge> 1\<close> characters be appended, each a code point of
  at most 0x10FFFF that takes the branch of lines 284 to 294, read from one wide unit or,
  on \<open>WCHAR16\<close>, from a surrogate pair, and let a backspace (0x08 or 0x7F) follow.
  Let \<open>ws\<close> be the \<open>N\<close> widths recorded before the backspace. Then there is
  \<open>k < N\<close> such that the line and the width stack after the backspace are those of a
  read that appended only the first \<open>k\<close> characters, every character after position
  \<open>k\<close> (counted from 0) has recorded width 0, and the character at position \<open>k\<close> has
  a recorded width other than 0 or is the first one. So the backspace removes the characters
  of width 0 at the end and the nearest character of non-zero width before them, and
  \<open>k = N - 1\<close> exactly when the width recorded for the last character is not 0 or
  \<open>N = 1\<close>.
\<close>

theorem backspace_undoes:
  assumes "list_all2 (\<lambda>us c. \<forall>r. getchar32 (platform E) (us @ r) = (c, r)) groups cps"
    and "cps \<noteq> []"
    and "\<forall>c\<in>set cps. is_appended (platform E) c \<and> c \<le> 0x10FFFF"
    and "bs = 0x08 \<or> bs = 0x7F"
  shows "\<exists>k<length cps.
           line (readline_steps E (Suc (length cps))
                   (readline_start cs (concat groups @ bs # rest) tty))
             = line (readline_steps E k (readline_start cs (concat (take k groups) @ rest') tty))
         \<and> widths (readline_steps E (Suc (length cps))
                   (readline_start cs (concat groups @ bs # rest) tty))
             = widths (readline_steps E k (readline_start cs (concat (take k groups) @ rest') tty))
         \<and> length (widths (readline_steps E (length cps)
                   (readline_start cs (concat groups @ bs # rest) tty))) = length cps
         \<and> (\<forall>i. k < i \<and> i < length cps \<longrightarrow>
              widths (readline_steps E (length cps)
                   (readline_start cs (concat groups @ bs # rest) tty)) ! i = 0)
         \<and> (widths (readline_steps E (length cps)
                   (readline_start cs (concat groups @ bs # rest) tty)) ! k \<noteq> 0 \<or> k = 0)
         \<and> (k = length cps - 1 \<longleftrightarrow>
              last (widths (readline_steps E (length cps)
                   (readline_start cs (concat groups @ bs # rest) tty))) \<noteq> 0
              \<or> length cps = 1)"
proof -
  let ?z = "readline_start cs [] tty"
  let ?f = "feed E cps ?z"
  let ?s = "readline_start cs (concat groups @ bs # rest) tty"
  have app: "\<forall>c\<in>set cps. is_appended (platform E) c" using assms(3) by simp
  have val: "\<forall>c\<in>set cps. c \<le> 0x10FFFF" using assms(3) by simp
  have z: "widths ?z = []" by (simp add: readline_start_def)
  have "readline_steps E (length cps + 0) ?s = readline_steps E 0 (?f\<lparr>wstdin := bs # rest\<rparr>)"
    using assms(1) app by (rule readline_steps_groups_start)
  then have n: "readline_steps E (length cps) ?s = ?f\<lparr>wstdin := bs # rest\<rparr>" by simp
  have "readline_steps E (length cps + 1) ?s = readline_steps E 1 (?f\<lparr>wstdin := bs # rest\<rparr>)"
    using assms(1) app by (rule readline_steps_groups_start)
  also have "\<dots> = mark_special (handle_backspace (clear_special (?f\<lparr>wstdin := rest\<rparr>)))"
    using assms(4) readline_iteration_backspace [of "?f\<lparr>wstdin := bs # rest\<rparr>" bs rest E]
    by simp
  finally have after: "readline_steps E (Suc (length cps)) ?s
      = mark_special (handle_backspace (clear_special (?f\<lparr>wstdin := rest\<rparr>)))" by simp
  have ne: "widths ?f \<noteq> []" using assms(2) z by simp
  have len: "length (widths ?f) = length cps" using z by (simp add: length_widths_feed)
  obtain k where k: "k < length cps"
      "pop_widths (line ?f) (widths ?f)
         = (line (feed E (take k cps) ?z), widths (feed E (take k cps) ?z))"
      "\<forall>i. k < i \<and> i < length cps \<longrightarrow> widths ?f ! i = 0"
      "widths ?f ! k \<noteq> 0 \<or> k = 0"
    using pop_widths_feed [OF val assms(2) z, of E] by blast
  have tk: "readline_steps E k (readline_start cs (concat (take k groups) @ rest') tty)
            = (feed E (take k cps) ?z)\<lparr>wstdin := rest'\<rparr>"
  proof -
    have g: "list_all2 (\<lambda>us c. \<forall>r. getchar32 (platform E) (us @ r) = (c, r))
               (take k groups) (take k cps)"
      using assms(1) by (rule list_all2_takeI)
    have a: "\<forall>c\<in>set (take k cps). is_appended (platform E) c"
      using app by (auto dest: in_set_takeD)
    have "readline_steps E (length (take k cps) + 0)
            (readline_start cs (concat (take k groups) @ rest') tty)
          = readline_steps E 0 ((feed E (take k cps) ?z)\<lparr>wstdin := rest'\<rparr>)"
      using g a by (rule readline_steps_groups_start)
    then show ?thesis using k(1) by (simp add: min_def)
  qed
  have l: "line (readline_steps E (Suc (length cps)) ?s)
           = line (readline_steps E k (readline_start cs (concat (take k groups) @ rest') tty))"
    unfolding after tk using ne k(2) by (simp add: handle_backspace_fields)
  have w: "widths (readline_steps E (Suc (length cps)) ?s)
           = widths (readline_steps E k (readline_start cs (concat (take k groups) @ rest') tty))"
    unfolding after tk using ne k(2) by (simp add: handle_backspace_fields)
  have n1: "length (widths (readline_steps E (length cps) ?s)) = length cps"
    unfolding n using len by simp
  have n2: "\<forall>i. k < i \<and> i < length cps \<longrightarrow> widths (readline_steps E (length cps) ?s) ! i = 0"
    unfolding n using k(3) by simp
  have n3: "widths (readline_steps E (length cps) ?s) ! k \<noteq> 0 \<or> k = 0"
    unfolding n using k(4) by simp
  have lst: "last (widths ?f) = widths ?f ! (length cps - 1)"
    using ne len by (simp add: last_conv_nth)
  have "k = length cps - 1 \<longleftrightarrow> last (widths ?f) \<noteq> 0 \<or> length cps = 1"
  proof (cases "k = length cps - 1")
    case True
    then show ?thesis using k(4) lst assms(2) by (cases cps) auto
  next
    case False
    then have "k < length cps - 1 \<and> length cps - 1 < length cps" using k(1) by arith
    then have "widths ?f ! (length cps - 1) = 0" using k(3) by blast
    then show ?thesis using False k(1) lst by auto
  qed
  then have n4: "k = length cps - 1 \<longleftrightarrow>
              last (widths (readline_steps E (length cps) ?s)) \<noteq> 0 \<or> length cps = 1"
    unfolding n by simp
  from k(1) l w n1 n2 n3 n4 show ?thesis by blast
qed

text \<open>
  On \<open>WCHAR16\<close>: \<open>a\<close>, U+1F600 read from the surrogate pair D83D DE00, U+0301 of
  width 0, then 0x7F.
\<close>

theorem backspace_undoes_witness:
  "list_all2 (\<lambda>us c. \<forall>r. getchar32 WCHAR16 (us @ r) = (c, r))
     [[0x61], [0xD83D, 0xDE00], [0x301 :: wint]] [0x61, 0x1F600, 0x301 :: char32]
   \<and> is_appended WCHAR16 0x61 \<and> is_appended WCHAR16 0x1F600 \<and> is_appended WCHAR16 0x301
   \<and> (\<exists>k<length [0x61, 0x1F600, 0x301 :: char32].
         line (readline_steps example_env16 (Suc (length [0x61, 0x1F600, 0x301 :: char32]))
                 (readline_start example_console
                    (concat [[0x61], [0xD83D, 0xDE00], [0x301 :: wint]] @ 0x7F # []) []))
           = line (readline_steps example_env16 k
                 (readline_start example_console
                    (concat (take k [[0x61], [0xD83D, 0xDE00], [0x301 :: wint]]) @ []) []))
       \<and> widths (readline_steps example_env16 (Suc (length [0x61, 0x1F600, 0x301 :: char32]))
                 (readline_start example_console
                    (concat [[0x61], [0xD83D, 0xDE00], [0x301 :: wint]] @ 0x7F # []) []))
           = widths (readline_steps example_env16 k
                 (readline_start example_console
                    (concat (take k [[0x61], [0xD83D, 0xDE00], [0x301 :: wint]]) @ []) []))
       \<and> length (widths (readline_steps example_env16 (length [0x61, 0x1F600, 0x301 :: char32])
                 (readline_start example_console
                    (concat [[0x61], [0xD83D, 0xDE00], [0x301 :: wint]] @ 0x7F # []) [])))
           = length [0x61, 0x1F600, 0x301 :: char32]
       \<and> (\<forall>i. k < i \<and> i < length [0x61, 0x1F600, 0x301 :: char32] \<longrightarrow>
              widths (readline_steps example_env16 (length [0x61, 0x1F600, 0x301 :: char32])
                 (readline_start example_console
                    (concat [[0x61], [0xD83D, 0xDE00], [0x301 :: wint]] @ 0x7F # []) [])) ! i = 0)
       \<and> (widths (readline_steps example_env16 (length [0x61, 0x1F600, 0x301 :: char32])
                 (readline_start example_console
                    (concat [[0x61], [0xD83D, 0xDE00], [0x301 :: wint]] @ 0x7F # []) [])) ! k \<noteq> 0
            \<or> k = 0)
       \<and> (k = length [0x61, 0x1F600, 0x301 :: char32] - 1 \<longleftrightarrow>
              last (widths (readline_steps example_env16 (length [0x61, 0x1F600, 0x301 :: char32])
                 (readline_start example_console
                    (concat [[0x61], [0xD83D, 0xDE00], [0x301 :: wint]] @ 0x7F # []) []))) \<noteq> 0
              \<or> length [0x61, 0x1F600, 0x301 :: char32] = 1))"
proof -
  have p: "platform example_env16 = WCHAR16" by (simp add: example_env16_def)
  have g: "list_all2 (\<lambda>us c. \<forall>r. getchar32 WCHAR16 (us @ r) = (c, r))
             [[0x61], [0xD83D, 0xDE00], [0x301 :: wint]] [0x61, 0x1F600, 0x301 :: char32]"
    by (simp add: getchar32_def getwchar_def WEOF_def)
  have a: "is_appended WCHAR16 0x61" "is_appended WCHAR16 0x1F600" "is_appended WCHAR16 0x301"
    by (simp_all add: is_appended_def WEOF_def)
  have h1: "list_all2 (\<lambda>us c. \<forall>r. getchar32 (platform example_env16) (us @ r) = (c, r))
              [[0x61], [0xD83D, 0xDE00], [0x301 :: wint]] [0x61, 0x1F600, 0x301 :: char32]"
    unfolding p by (rule g)
  have h2: "[0x61, 0x1F600, 0x301 :: char32] \<noteq> []" by simp
  have h3: "\<forall>c\<in>set [0x61, 0x1F600, 0x301 :: char32].
              is_appended (platform example_env16) c \<and> c \<le> 0x10FFFF"
    unfolding p using a by simp
  have h4: "(0x7F :: wint) = 0x08 \<or> (0x7F :: wint) = 0x7F" by simp
  show ?thesis
    by (intro conjI g a backspace_undoes [OF h1 h2 h3 h4])
qed

text \<open>
  With \<open>a\<close> and then U+0301, of width 0, one backspace empties the line, while the
  read of \<open>a\<close> alone holds one byte.
\<close>

theorem backspace_zero_width_counterexample:
  "line (readline_steps example_env 3
           (readline_start example_console [0x61, 0x301, 0x08] []))
   \<noteq> line (readline_steps example_env 1 (readline_start example_console [0x61] []))"
  by code_simp

section \<open>Continuation markers\<close>

lemma readline_backslash_line:
  assumes "nl = 0x0A \<or> nl = 0x0D"
  shows "console_readline_advanced E cs ([0x61, 0x62, 0x5C] @ nl # rest) tty
         = (\<not> multiline (io cs),
            (feed E [0x61, 0x62, 0x5C] (readline_start cs ([0x61, 0x62, 0x5C] @ nl # rest) tty))
              \<lparr>wstdin := rest, line := [0x61, 0x62, 0x0A]\<rparr>)"
proof -
  have o: "\<forall>c\<in>set [0x61, 0x62, 0x5C]. is_ordinary (platform E) c"
    by (simp add: is_ordinary_ascii)
  have w: "readline_while E (readline_start cs ([0x61, 0x62, 0x5C] @ nl # rest) tty)
           = (feed E [0x61, 0x62, 0x5C] (readline_start cs ([0x61, 0x62, 0x5C] @ nl # rest) tty))
               \<lparr>wstdin := rest\<rparr>"
    by (rule readline_marker_line [OF o _ assms]) simp
  show ?thesis
    unfolding console_readline_advanced_def w
    by (simp add: readline_finish_def Let_def is_marker_def readline_start_def encode_def
          append_utf8_def)
qed

text \<open>
  C2. The characters \<open>a\<close>, \<open>b\<close>, backslash and a line end (LF or CR) give the text
  \<open>ab\<close> followed by a newline, and the returned flag is the negation of the multiline flag
  of the console state the read started with.
\<close>

theorem continuation_backslash:
  "fst (console_readline_advanced E cs (0x61 # 0x62 # 0x5C # 0x0A # rest) tty)
     = (\<not> multiline (io cs))
   \<and> line (snd (console_readline_advanced E cs (0x61 # 0x62 # 0x5C # 0x0A # rest) tty))
     = [0x61, 0x62, 0x0A]
   \<and> fst (console_readline_advanced E cs (0x61 # 0x62 # 0x5C # 0x0D # rest) tty)
     = (\<not> multiline (io cs))
   \<and> line (snd (console_readline_advanced E cs (0x61 # 0x62 # 0x5C # 0x0D # rest) tty))
     = [0x61, 0x62, 0x0A]"
  using readline_backslash_line [of "0x0A" E cs rest tty]
        readline_backslash_line [of "0x0D" E cs rest tty]
  by simp

lemma readline_slash_line:
  assumes "nl = 0x0A \<or> nl = 0x0D" and "set pre \<subseteq> {0x20, 0x61, 0x62}"
  shows "console_readline_advanced E cs ((pre @ [0x2F]) @ nl # rest) tty
         = (False,
            (feed E (pre @ [0x2F]) (readline_start cs ((pre @ [0x2F]) @ nl # rest) tty))
              \<lparr>wstdin := rest, line := (if pre = [0x20] then [] else map ucast pre)\<rparr>)"
proof -
  have "is_ordinary (platform E) c" if "c \<in> {0x20, 0x61, 0x62, 0x2F}" for c
    using that by (auto intro: is_ordinary_ascii)
  then have o: "\<forall>c\<in>set (pre @ [0x2F]). is_ordinary (platform E) c"
    using assms(2) by auto
  have e: "encode c = [ucast c]" if "c \<in> {0x20, 0x61, 0x62, 0x2F}" for c
    using that by (auto simp: encode_def append_utf8_def)
  have "concat (map encode pre) = map ucast pre"
    using assms(2) by (induction pre) (auto simp: e)
  then have ln: "concat (map encode (pre @ [0x2F])) = map ucast pre @ [0x2F]"
    by (simp add: e)
  have one: "length pre = 1 \<and> last (map ucast pre) = (0x20 :: byte) \<longleftrightarrow> pre = [0x20]"
    using assms(2) by (cases pre) auto
  define f where "f = feed E (pre @ [0x2F]) (readline_start cs ((pre @ [0x2F]) @ nl # rest) tty)"
  have w: "readline_while E (readline_start cs ((pre @ [0x2F]) @ nl # rest) tty)
           = f\<lparr>wstdin := rest\<rparr>"
    unfolding f_def by (rule readline_marker_line [OF o _ assms(1)]) simp
  have lf: "line f = map ucast pre @ [0x2F]"
    unfolding f_def line_feed ln by (simp add: readline_start_def)
  have "is_special_char f = is_marker (line f)"
    unfolding f_def by (rule is_special_feed) simp
  then have sp: "is_special_char f" by (simp add: lf is_marker_def)
  show ?thesis
    unfolding console_readline_advanced_def w f_def [symmetric]
    using one by (simp add: readline_finish_def Let_def lf sp)
qed

text \<open>
  C3. Whatever the multiline flag is, so also when it is set: \<open>a\<close>, \<open>b\<close>, slash and a
  line end give the text \<open>ab\<close> and the flag false; a slash and a line end give the empty
  text and the flag false; and when the line at the end of the loop is one space and the
  slash, the text given back is empty: so for the input space, slash, line end, and so for
  every state with that line and a pending marker.
\<close>

theorem continuation_slash:
  "fst (console_readline_advanced E cs (0x61 # 0x62 # 0x2F # 0x0A # rest) tty) = False
   \<and> line (snd (console_readline_advanced E cs (0x61 # 0x62 # 0x2F # 0x0A # rest) tty))
       = [0x61, 0x62]
   \<and> fst (console_readline_advanced E cs (0x2F # 0x0A # rest) tty) = False
   \<and> line (snd (console_readline_advanced E cs (0x2F # 0x0A # rest) tty)) = []
   \<and> fst (console_readline_advanced E cs (0x20 # 0x2F # 0x0A # rest) tty) = False
   \<and> line (snd (console_readline_advanced E cs (0x20 # 0x2F # 0x0A # rest) tty)) = []
   \<and> fst (readline_finish (st\<lparr>line := [0x20, 0x2F], is_special_char := True\<rparr>)) = False
   \<and> line (snd (readline_finish (st\<lparr>line := [0x20, 0x2F], is_special_char := True\<rparr>))) = []"
  using readline_slash_line [of "0x0A" "[0x61, 0x62]" E cs rest tty]
        readline_slash_line [of "0x0A" "[]" E cs rest tty]
        readline_slash_line [of "0x0A" "[0x20]" E cs rest tty]
  by (simp add: readline_finish_def Let_def)

section \<open>Escape sequences\<close>

lemma is_final_byte_small: "is_final_byte t \<Longrightarrow> t \<le> 0x7F"
  by (auto simp: is_final_byte_def word_le_nat_alt)

lemma discard_escape_plain:
  assumes "\<forall>u\<in>set mid. plain_unit p u \<and> \<not> is_final_byte u" and "is_final_byte t"
  shows "discard_escape p (mid @ t # rest) = rest"
  using assms(1)
proof (induction mid)
  case Nil
  have "t \<le> 0x7F" using assms(2) by (rule is_final_byte_small)
  then have "getchar32 p (t # rest) = (t, rest)" "t \<noteq> WEOF p"
    by (simp_all add: getchar32_small WEOF_not_small)
  then show ?case using assms(2) by (subst discard_escape.simps) simp
next
  case (Cons u mid)
  then have u: "plain_unit p u" "\<not> is_final_byte u" by simp_all
  then have "getchar32 p (u # mid @ t # rest) = (u, mid @ t # rest)" "u \<noteq> WEOF p"
    by (simp_all add: getchar32_plain plain_unit_def)
  then have "discard_escape p ((u # mid) @ t # rest) = discard_escape p (mid @ t # rest)"
    using u(2) by (subst discard_escape.simps) simp
  then show ?case using Cons by simp
qed

lemma readline_iteration_escape:
  assumes "wstdin st = 0x1B # x # mid @ t # rest" and "x = 0x5B \<or> x = 0x1B"
    and "\<forall>u\<in>set mid. plain_unit (platform E) u \<and> \<not> is_final_byte u"
    and "is_final_byte t"
  shows "readline_iteration E st = Continue (mark_special ((clear_special st)\<lparr>wstdin := rest\<rparr>))"
proof -
  have g: "getchar32 (platform E) (wstdin st) = (0x1B, x # mid @ t # rest)"
    using assms(1) by (simp add: getchar32_small)
  have "x \<le> 0x7F" using assms(2) by auto
  then have gx: "getchar32 (platform E) (x # mid @ t # rest) = (x, mid @ t # rest)"
    by (rule getchar32_small)
  have d: "discard_escape (platform E) (mid @ t # rest) = rest"
    using assms(3,4) by (rule discard_escape_plain)
  have e: "handle_escape E (clear_special (st\<lparr>wstdin := x # mid @ t # rest\<rparr>))
           = (clear_special st)\<lparr>wstdin := rest\<rparr>"
    using assms(2) by (auto simp: handle_escape_def gx d clear_special_wstdin)
  have "(0x1B :: wint) \<noteq> WEOF (platform E)" by (rule WEOF_not_small) simp
  then show ?thesis by (simp add: readline_iteration_def g e)
qed

text \<open>
  C7. When the input starts with ESC, then \<open>[\<close> or a second ESC, then units that are not
  in A to Z, a to z or \<open>~\<close>, then one unit that is, the turn of the loop that reads the ESC
  uses up the whole sequence, the loop goes on, and the line and the width stack are as
  they were. ESC \<open>[\<close> \<open>A\<close> is the case with no unit in between.
\<close>

theorem escape_sequence_discarded:
  assumes "wstdin st = 0x1B # x # mid @ t # rest" and "x = 0x5B \<or> x = 0x1B"
    and "\<forall>u\<in>set mid. plain_unit (platform E) u \<and> \<not> is_final_byte u"
    and "is_final_byte t"
  shows "readline_iteration E st = Continue (readline_steps E 1 st)
       \<and> line (readline_steps E 1 st) = line st
       \<and> widths (readline_steps E 1 st) = widths st
       \<and> wstdin (readline_steps E 1 st) = rest"
  using readline_iteration_escape [OF assms] by simp

theorem escape_sequence_discarded_witness:
  "wstdin (readline_start example_console ([0x61] @ 0x1B # 0x5B # [] @ 0x41 # [0x62]) [])
     = [0x61] @ 0x1B # 0x5B # [] @ 0x41 # [0x62]
   \<and> is_final_byte 0x41
   \<and> line (readline_steps example_env 1
         (readline_steps example_env 1
            (readline_start example_console ([0x61] @ 0x1B # 0x5B # [] @ 0x41 # [0x62]) [])))
     = [0x61]
   \<and> wstdin (readline_steps example_env 1
         (readline_steps example_env 1
            (readline_start example_console ([0x61] @ 0x1B # 0x5B # [] @ 0x41 # [0x62]) [])))
     = [0x62]"
proof -
  let ?s1 = "readline_steps example_env 1
               (readline_start example_console ([0x61] @ 0x1B # 0x5B # [] @ 0x41 # [0x62]) [])"
  have w: "wstdin ?s1 = 0x1B # 0x5B # [] @ 0x41 # [0x62]" by code_simp
  have l: "line ?s1 = [0x61]" by code_simp
  have f: "is_final_byte 0x41" by (simp add: is_final_byte_def)
  have "line (readline_steps example_env 1 ?s1) = line ?s1
        \<and> wstdin (readline_steps example_env 1 ?s1) = [0x62]"
    using escape_sequence_discarded [where E = example_env, OF w _ _ f] by simp
  then show ?thesis using l f by (simp add: readline_start_def)
qed

section \<open>Surrogate reassembly\<close>

text \<open>
  C5. On a platform with 16-bit wide characters, a high-surrogate unit followed by a
  low-surrogate unit is read as the code point
  \<open>((high & 0x03FF) << 10) + (low & 0x03FF) + 0x10000\<close>, and a high-surrogate unit
  followed by any other unit, or by the end of the input, is read as U+FFFD.
\<close>

theorem getchar32_surrogates:
  assumes "0xD800 \<le> high" and "high \<le> 0xDBFF" and "low \<le> 0xFFFF"
  shows "(0xDC00 \<le> low \<and> low \<le> 0xDFFF \<longrightarrow>
            getchar32 WCHAR16 (high # low # rest)
              = (push_bit 10 (high AND 0x03FF) + (low AND 0x03FF) + 0x10000, rest))
       \<and> (\<not> (0xDC00 \<le> low \<and> low \<le> 0xDFFF) \<longrightarrow>
            getchar32 WCHAR16 (high # low # rest) = (0xFFFD, rest))
       \<and> getchar32 WCHAR16 [high] = (0xFFFD, [])"
proof -
  have h: "high AND 0xFFFF = high" using assms(2) by (intro and_ffff) (simp add: word_le_nat_alt)
  have l: "low AND 0xFFFF = low" using assms(3) by (rule and_ffff)
  have ne: "high \<noteq> 0xFFFF" using assms(2) by auto
  have hi: "high \<le> 0xDFFF" using assms(2) by (simp add: word_le_nat_alt)
  show ?thesis using assms(1,2) hi ne
    by (simp add: getchar32_def getwchar_def WEOF_def h l)
qed

theorem getchar32_surrogates_witness:
  "getchar32 WCHAR16 [0xD83D, 0xDE00, 0x41] = (0x1F600, [0x41])
   \<and> getchar32 WCHAR16 [0xD83D, 0x41, 0x42] = (0xFFFD, [0x42])
   \<and> getchar32 WCHAR16 [0xD83D] = (0xFFFD, [])"
  using getchar32_surrogates [of "0xD83D" "0xDE00" "[0x41]"]
        getchar32_surrogates [of "0xD83D" "0x41" "[0x42]"]
  by simp

section \<open>The width probe\<close>

text \<open>
  C8. In the probe (negative expected width, terminal handle present), unless both
  replies give two integers each, \<open>put_codepoint\<close> returns the expected width it was
  called with, after both replies have been read.
\<close>

theorem put_codepoint_fallback:
  assumes "expected_width < 0" and "teletype (io cs) \<noteq> None"
    and "fscanf_cursor_pos tty = (r1, tty1)" and "fscanf_cursor_pos tty1 = (r2, tty2)"
    and "\<not> (\<exists>start_y start_x end_y end_x.
               r1 = ScanTwo start_y start_x \<and> r2 = ScanTwo end_y end_x)"
  shows "put_codepoint cs cols expected_width tty = (expected_width, tty2)"
  using assms by (cases r1; cases r2) (auto simp: put_codepoint_def Let_def)

theorem put_codepoint_fallback_witness:
  "teletype (io (console_create True False False console_state_initial)) \<noteq> None
   \<and> put_codepoint (console_create True False False console_state_initial) 80 (- 1)
         [ScanTwo 1 5, ScanOne 1, ScanTwo 1 7]
       = (- 1, [ScanTwo 1 7])"
proof -
  have t: "teletype (io (console_create True False False console_state_initial)) \<noteq> None"
    by (simp add: console_create_def console_state_initial_def Let_def)
  have 1: "fscanf_cursor_pos [ScanTwo 1 5, ScanOne 1, ScanTwo 1 7]
           = (ScanTwo 1 5, [ScanOne 1, ScanTwo 1 7])"
    by (simp add: fscanf_cursor_pos_def)
  have 2: "fscanf_cursor_pos [ScanOne 1, ScanTwo 1 7] = (ScanOne 1, [ScanTwo 1 7])"
    by (simp add: fscanf_cursor_pos_def)
  have "put_codepoint (console_create True False False console_state_initial) 80 (- 1)
          [ScanTwo 1 5, ScanOne 1, ScanTwo 1 7] = (- 1, [ScanTwo 1 7])"
    by (rule put_codepoint_fallback [OF _ t 1 2]) simp_all
  with t show ?thesis by simp
qed

text \<open>When both replies give two integers the width is measured.\<close>

lemma put_codepoint_measured:
  assumes "expected_width < 0" and "teletype (io cs) \<noteq> None"
  shows "put_codepoint cs cols expected_width (ScanTwo sy sx # ScanTwo ey ex # tty)
         = (if ex - sx < 0 then ex - sx + cols else ex - sx, tty)"
  using assms by (simp add: put_codepoint_def fscanf_cursor_pos_def Let_def)

section \<open>Width stack and line\<close>

lemma codepoint_count_Nil [simp]: "codepoint_count [] = 0"
  by (simp add: codepoint_count_def)

lemma codepoint_count_append [simp]:
  "codepoint_count (xs @ ys) = codepoint_count xs + codepoint_count ys"
  by (simp add: codepoint_count_def)



lemma encoded_line_Nil [simp]: "encoded_line [] 0"
  by (simp add: encoded_line_def)




subsection \<open>Characters read stay in range\<close>

lemma and_3ff_le: "unat ((a :: 32 word) AND 0x3FF) \<le> 1023"
  using word_and_le1 [of a "0x3FF"] by (simp add: word_le_nat_alt)



lemma getwchar_set: "getwchar p s = (c, s') \<Longrightarrow> set s' \<subseteq> set s"
  by (auto simp: getwchar_def split: list.splits)




lemma handle_escape_fields [simp]:
  "line (handle_escape E st) = line st"
  "widths (handle_escape E st) = widths st"
  by (simp_all add: handle_escape_def split: prod.splits)








section \<open>Failure of the simple read\<close>

lemma mode_set_display_mode:
  "mode (display (console_set_display_mode m cs))
   = (if advanced (display cs) then m else mode (display cs))"
  by (simp add: console_set_display_mode_def)

text \<open>
  C9 (as the code has it). In the simple read, when \<open>std::getline\<close> fails, the function
  returns false with an empty line, and the console state is the one that
  \<open>console_set_display_mode(CONSOLE_ERROR)\<close> leaves: the display mode is ERROR when the
  advanced display is on, and is unchanged when it is off. When \<open>std::getline\<close> does not
  fail, the function returns true, so also for an empty line.
\<close>

theorem simple_read_failure:
  assumes "std_getline cin ln = (cin1, ln1)"
  shows "(stream_fail cin1 \<longrightarrow>
            console_readline_simple cs cin ln
              = (False, [], console_set_display_mode CONSOLE_ERROR cs, cin1)
            \<and> console_input_string cs cin ln
              = (False, [], console_set_display_mode CONSOLE_ERROR cs, cin1)
            \<and> mode (display (console_set_display_mode CONSOLE_ERROR cs))
              = (if advanced (display cs) then CONSOLE_ERROR else mode (display cs)))
       \<and> (\<not> stream_fail cin1 \<longrightarrow> fst (console_readline_simple cs cin ln) = True)"
  using assms
  by (auto simp: console_readline_simple_def console_input_string_def mode_set_display_mode
           split: prod.splits)

theorem simple_read_failure_witness:
  "std_getline empty_cin [0x61] = (empty_cin\<lparr>eofbit := True, failbit := True\<rparr>, [])
   \<and> stream_fail (empty_cin\<lparr>eofbit := True, failbit := True\<rparr>)
   \<and> console_readline_simple (console_create False True True console_state_initial)
         empty_cin [0x61]
       = (False, [],
          console_set_display_mode CONSOLE_ERROR
            (console_create False True True console_state_initial),
          empty_cin\<lparr>eofbit := True, failbit := True\<rparr>)
   \<and> mode (display (console_set_display_mode CONSOLE_ERROR
                       (console_create False True True console_state_initial)))
       = CONSOLE_ERROR
   \<and> std_getline (empty_cin\<lparr>rdbuf := [0x0A]\<rparr>) [0x61] = (empty_cin, [])
   \<and> \<not> stream_fail empty_cin
   \<and> fst (console_readline_simple (console_create False True True console_state_initial)
            (empty_cin\<lparr>rdbuf := [0x0A]\<rparr>) [0x61]) = True"
proof -
  have g: "std_getline empty_cin [0x61]
           = (empty_cin\<lparr>eofbit := True, failbit := True\<rparr>, [])"
    by (simp add: std_getline_def empty_cin_def stream_good_def)
  have f: "stream_fail (empty_cin\<lparr>eofbit := True, failbit := True\<rparr>)"
    by (simp add: stream_fail_def)
  have g': "std_getline (empty_cin\<lparr>rdbuf := [0x0A]\<rparr>) [0x61] = (empty_cin, [])"
    by (simp add: std_getline_def empty_cin_def stream_good_def)
  have f': "\<not> stream_fail empty_cin"
    by (simp add: stream_fail_def empty_cin_def)
  have a: "advanced (display (console_create False True True console_state_initial))"
    by (simp add: console_create_def console_state_initial_def Let_def)
  let ?cs = "console_create False True True console_state_initial"
  have 1: "console_readline_simple ?cs empty_cin [0x61]
           = (False, [], console_set_display_mode CONSOLE_ERROR ?cs,
              empty_cin\<lparr>eofbit := True, failbit := True\<rparr>)"
    using simple_read_failure [OF g, of ?cs] f by blast
  have 2: "mode (display (console_set_display_mode CONSOLE_ERROR ?cs)) = CONSOLE_ERROR"
    using simple_read_failure [OF g, of ?cs] f a by simp
  have 3: "fst (console_readline_simple ?cs (empty_cin\<lparr>rdbuf := [0x0A]\<rparr>) [0x61]) = True"
    using simple_read_failure [OF g', of ?cs] f' by blast
  show ?thesis by (intro conjI g f 1 2 g' f' 3)
qed

text \<open>
  With the advanced display off, as in the initial state, a failed read leaves the
  display mode as it was.
\<close>

theorem simple_read_failure_counterexample:
  "stream_fail (fst (std_getline empty_cin []))
   \<and> mode (display (fst (snd (snd (console_readline_simple console_state_initial
                                      empty_cin []))))) \<noteq> CONSOLE_ERROR"
  by (simp add: std_getline_def empty_cin_def stream_good_def stream_fail_def
        console_readline_simple_def console_input_string_def console_set_display_mode_def
        console_state_initial_def)

section \<open>The multiline flag\<close>

lemma multiline_console_create [simp]:
  "multiline (io (console_create t s a cs)) = multiline (io cs)"
  by (simp add: console_create_def Let_def)

lemma multiline_console_reset [simp]:
  "multiline (io (console_reset cs)) = multiline (io cs)"
  by (simp add: console_reset_def Let_def)

lemma multiline_handle_escape [simp]:
  "console_state (handle_escape E st) = console_state st"
  by (simp add: handle_escape_def split: prod.splits)

lemma multiline_handle_backspace [simp]:
  "console_state (handle_backspace st) = console_state st"
  by (simp add: handle_backspace_def split: prod.splits)

lemma multiline_readline_iteration:
  assumes "readline_iteration E st = Continue st' \<or> readline_iteration E st = Break st'"
  shows "multiline (io (console_state st')) = multiline (io (console_state st))"
proof -
  obtain c s1 where g: "getchar32 (platform E) (wstdin st) = (c, s1)"
    by (cases "getchar32 (platform E) (wstdin st)")
  have "multiline (io (console_state (clear_special (st\<lparr>wstdin := s1\<rparr>))))
        = multiline (io (console_state st))"
    by (simp only: multiline_clear_special) simp
  then show ?thesis using assms
    by (auto simp: readline_iteration_def g Let_def split: if_splits)
qed

lemma multiline_readline_while:
  "multiline (io (console_state (readline_while E st))) = multiline (io (console_state st))"
proof (induction E st rule: readline_while.induct)
  case (1 E st)
  show ?case
  proof (cases "readline_iteration E st")
    case (Break st')
    then have "readline_while E st = st'" by (subst readline_while.simps) simp
    then show ?thesis using multiline_readline_iteration [of E st st'] Break by simp
  next
    case (Continue st')
    then have "readline_while E st = readline_while E st'"
      by (subst readline_while.simps) simp
    then show ?thesis
      using multiline_readline_iteration [of E st st'] Continue "1.IH" [OF Continue] by simp
  qed
qed

lemma console_state_readline_finish [simp]:
  "console_state (snd (readline_finish st)) = console_state st"
  by (simp add: readline_finish_def Let_def)

lemma multiline_console_input_character:
  "multiline (io (fst (snd (console_input_character cs cin)))) = multiline (io cs)"
  by (simp add: console_input_character_def split: prod.splits option.splits)

lemma multiline_console_input_string:
  "multiline (io (fst (snd (snd (console_input_string cs cin ln))))) = multiline (io cs)"
  by (simp add: console_input_string_def split: prod.splits)

lemma multiline_console_input_control:
  "multiline (io (fst (snd (console_input_control cs cin))))
   = (if fst (console_input_character cs cin) = 0x6D
      then \<not> multiline (io cs) else multiline (io cs))"
  using multiline_console_input_character [of cs cin]
  by (auto simp: console_input_control_def EOF_def split: prod.splits)

text \<open>
  C10. The advanced read gives back the console state with the multiline flag it was
  called with, whatever the input; a pending backslash at the end of the loop negates the
  returned flag only. Of the other functions, \<open>console_create\<close>, \<open>console_reset\<close>,
  \<open>console_set_display_mode\<close>, \<open>console_input_character\<close> and
  \<open>console_input_string\<close> keep the flag, \<open>console_input_control\<close> negates it exactly
  when the character it read is \<open>m\<close>, and the simple read changes it through that call
  alone: when the line read is not empty, ends with ESC, and the next character is \<open>m\<close>.
\<close>

theorem multiline_flag_frame:
  "multiline (io (console_state (snd (console_readline_advanced E cs input tty))))
     = multiline (io cs)
   \<and> fst (readline_finish (st\<lparr>line := ln @ [0x5C], is_special_char := True\<rparr>))
     = (\<not> multiline (io (console_state st)))
   \<and> console_state (snd (readline_finish (st\<lparr>line := ln @ [0x5C], is_special_char := True\<rparr>)))
     = console_state st
   \<and> multiline (io (console_create tty_opens use_simple_io use_advanced_display cs))
     = multiline (io cs)
   \<and> multiline (io (console_reset cs)) = multiline (io cs)
   \<and> multiline (io (console_set_display_mode m cs)) = multiline (io cs)
   \<and> multiline (io (fst (snd (console_input_character cs cin)))) = multiline (io cs)
   \<and> multiline (io (fst (snd (snd (console_input_string cs cin ln'))))) = multiline (io cs)
   \<and> multiline (io (fst (snd (console_input_control cs cin))))
     = (if fst (console_input_character cs cin) = 0x6D
        then \<not> multiline (io cs) else multiline (io cs))
   \<and> multiline (io (fst (snd (snd (console_readline_simple cs cin ln')))))
     = (if fst (console_input_string cs cin ln')
           \<and> fst (snd (console_input_string cs cin ln')) \<noteq> []
           \<and> last (fst (snd (console_input_string cs cin ln'))) = 27
           \<and> fst (console_input_character
                    (fst (snd (snd (console_input_string cs cin ln'))))
                    (snd (snd (snd (console_input_string cs cin ln'))))) = 0x6D
        then \<not> multiline (io cs) else multiline (io cs))"
proof -
  have adv: "multiline (io (console_state (snd (console_readline_advanced E cs input tty))))
             = multiline (io cs)"
    by (simp add: console_readline_advanced_def multiline_readline_while readline_start_def)
  have fin: "fst (readline_finish (st\<lparr>line := ln @ [0x5C], is_special_char := True\<rparr>))
             = (\<not> multiline (io (console_state st)))"
    by (simp add: readline_finish_def Let_def)
  obtain ok ln1 cs1 cin1 where s: "console_input_string cs cin ln' = (ok, ln1, cs1, cin1)"
    by (cases "console_input_string cs cin ln'") auto
  have m1: "multiline (io cs1) = multiline (io cs)"
    using multiline_console_input_string [of cs cin ln'] s by simp
  have simple: "multiline (io (fst (snd (snd (console_readline_simple cs cin ln')))))
     = (if ok \<and> ln1 \<noteq> [] \<and> last ln1 = 27 \<and> fst (console_input_character cs1 cin1) = 0x6D
        then \<not> multiline (io cs) else multiline (io cs))"
    using m1 multiline_console_input_control [of cs1 cin1]
    by (auto simp: console_readline_simple_def s split: prod.splits)
  show ?thesis
    using adv fin simple m1
    by (simp add: s multiline_console_input_character multiline_console_input_string
          multiline_console_input_control)
qed

section \<open>Encoding and decoding\<close>

lemma le_mask_eq: "(c :: 32 word) < 2 ^ n \<Longrightarrow> n < 32 \<Longrightarrow> bit c m \<Longrightarrow> m < n"
  by (metis bit_take_bit_iff less_mask_eq take_bit_eq_mask)

lemma rebuild2:
  fixes c M N :: "32 word"
  assumes "c < 2 ^ 11"
  shows "push_bit 6 (ucast ((ucast (push_bit 6 M OR (drop_bit 6 c AND mask 5)) :: byte) AND mask 5))
         OR ucast ((ucast (push_bit 7 N OR (c AND mask 6)) :: byte) AND mask 6) = c"
    (is "?lhs = c")
proof (rule bit_word_eqI)
  fix n assume "n < LENGTH(32)"
  have hi: "bit c n \<Longrightarrow> n < 11" using le_mask_eq [OF assms] by simp
  have "n < 6 \<or> (\<exists>m. n = 6 + m \<and> m < 5) \<or> 11 \<le> n" by presburger
  then consider "n < 6" | m where "n = 6 + m" "m < 5" | "11 \<le> n" by blast
  then show "bit ?lhs n = bit c n"
  proof cases
    case 1
    then show ?thesis by (simp add: bit_simps)
  next
    case 2
    then show ?thesis by (simp add: bit_simps)
  next
    case 3
    then show ?thesis using hi by (auto simp: bit_simps)
  qed
qed

lemma rebuild3:
  fixes c M N :: "32 word"
  assumes "c < 2 ^ 16"
  shows "push_bit 12 (ucast ((ucast (push_bit 5 M OR (drop_bit 12 c AND mask 4)) :: byte) AND mask 4))
         OR push_bit 6 (ucast ((ucast (push_bit 7 N OR (drop_bit 6 c AND mask 6)) :: byte) AND mask 6))
         OR ucast ((ucast (push_bit 7 N OR (c AND mask 6)) :: byte) AND mask 6) = c"
    (is "?lhs = c")
proof (rule bit_word_eqI)
  fix n assume "n < LENGTH(32)"
  have hi: "bit c n \<Longrightarrow> n < 16" using le_mask_eq [OF assms] by simp
  have "n < 6 \<or> (\<exists>m. n = 6 + m \<and> m < 6) \<or> (\<exists>m. n = 12 + m \<and> m < 4) \<or> 16 \<le> n"
    by presburger
  then consider "n < 6" | m where "n = 6 + m" "m < 6" | m where "n = 12 + m" "m < 4"
    | "16 \<le> n" by blast
  then show "bit ?lhs n = bit c n"
  proof cases
    case 1
    then show ?thesis by (simp add: bit_simps)
  next
    case 2
    then show ?thesis by (simp add: bit_simps)
  next
    case 3
    then show ?thesis by (simp add: bit_simps)
  next
    case 4
    then have "\<not> bit c n" "\<not> n - 12 < 4" "\<not> n - 6 < 6" "\<not> n < 6"
      using hi by auto
    then show ?thesis by (simp add: bit_simps)
  qed
qed

lemma rebuild4:
  fixes c M N :: "32 word"
  assumes "c < 2 ^ 21"
  shows "push_bit 18 (ucast ((ucast (push_bit 4 M OR (drop_bit 18 c AND mask 3)) :: byte) AND mask 3))
         OR push_bit 12 (ucast ((ucast (push_bit 7 N OR (drop_bit 12 c AND mask 6)) :: byte) AND mask 6))
         OR push_bit 6 (ucast ((ucast (push_bit 7 N OR (drop_bit 6 c AND mask 6)) :: byte) AND mask 6))
         OR ucast ((ucast (push_bit 7 N OR (c AND mask 6)) :: byte) AND mask 6) = c"
    (is "?lhs = c")
proof (rule bit_word_eqI)
  fix n assume "n < LENGTH(32)"
  have hi: "bit c n \<Longrightarrow> n < 21" using le_mask_eq [OF assms] by simp
  have "n < 6 \<or> (\<exists>m. n = 6 + m \<and> m < 6) \<or> (\<exists>m. n = 12 + m \<and> m < 6)
        \<or> (\<exists>m. n = 18 + m \<and> m < 3) \<or> 21 \<le> n"
    by presburger
  then consider "n < 6" | m where "n = 6 + m" "m < 6" | m where "n = 12 + m" "m < 6"
    | m where "n = 18 + m" "m < 3" | "21 \<le> n" by blast
  then show "bit ?lhs n = bit c n"
  proof cases
    case 1
    then show ?thesis by (simp add: bit_simps)
  next
    case 2
    then show ?thesis by (simp add: bit_simps)
  next
    case 3
    then show ?thesis by (simp add: bit_simps)
  next
    case 4
    then show ?thesis by (simp add: bit_simps)
  next
    case 5
    then have "\<not> bit c n" "\<not> n - 18 < 3" "\<not> n - 12 < 6" "\<not> n - 6 < 6" "\<not> n < 6"
      using hi by auto
    then show ?thesis by (simp add: bit_simps)
  qed
qed

lemma lead2e: "(ucast (0xC0 OR (x AND 0x1F) :: 32 word) :: 8 word) AND 0xE0 = 0xC0"
proof -
  have "(ucast (push_bit 6 (mask 2) OR (x AND mask 5) :: 32 word) :: 8 word) AND push_bit 5 (mask 3)
        = push_bit 6 (mask 2)"
    by (rule bit_word_eqI) (auto simp: bit_simps)
  then show ?thesis by (simp add: mask_eq_exp_minus_1)
qed

lemma lead3e: "(ucast (0xE0 OR (x AND 0x0F) :: 32 word) :: 8 word) AND 0xF0 = 0xE0"
proof -
  have "(ucast (push_bit 5 (mask 3) OR (x AND mask 4) :: 32 word) :: 8 word) AND push_bit 4 (mask 4)
        = push_bit 5 (mask 3)"
    by (rule bit_word_eqI) (auto simp: bit_simps)
  then show ?thesis by (simp add: mask_eq_exp_minus_1)
qed

lemma lead4e: "(ucast (0xF0 OR (x AND 0x07) :: 32 word) :: 8 word) AND 0xF8 = 0xF0"
proof -
  have "(ucast (push_bit 4 (mask 4) OR (x AND mask 3) :: 32 word) :: 8 word) AND push_bit 3 (mask 5)
        = push_bit 4 (mask 4)"
    by (rule bit_word_eqI) (auto simp: bit_simps)
  then show ?thesis by (simp add: mask_eq_exp_minus_1)
qed

lemma ascii_byte:
  assumes "(c :: 32 word) \<le> 0x7F"
  shows "(ucast c :: byte) AND 0x80 = 0" and "(ucast (ucast c :: byte) :: 32 word) = c"
proof -
  have lt: "c < 2 ^ 7" using assms by (simp add: word_less_nat_alt word_le_nat_alt)
  have hi: "bit c n \<Longrightarrow> n < 7" for n using le_mask_eq [OF lt] by simp
  have "6 < k \<Longrightarrow> (ucast c :: byte) AND push_bit k 1 = 0" for k
    by (rule bit_word_eqI) (use hi in \<open>fastforce simp: bit_simps\<close>)
  from this [of 7] show "(ucast c :: byte) AND 0x80 = 0" by simp
  show "(ucast (ucast c :: byte) :: 32 word) = c"
    by (rule bit_word_eqI) (use hi in \<open>fastforce simp: bit_simps\<close>)
qed

lemma utf8_decode_encode:
  assumes "cp \<le> 0x10FFFF" and "\<not> (0xD800 \<le> cp \<and> cp \<le> 0xDFFF)"
  shows "utf8_decode (append_utf8 cp []) = Some cp"
proof -
  consider "cp \<le> 0x7F" | "\<not> cp \<le> 0x7F" "cp \<le> 0x7FF" | "\<not> cp \<le> 0x7FF" "cp \<le> 0xFFFF"
    | "\<not> cp \<le> 0xFFFF" by blast
  then show ?thesis
  proof cases
    case 1
    then show ?thesis by (simp add: append_utf8_def ascii_byte)
  next
    case 2
    define b0 :: byte where "b0 = ucast (0xC0 OR (drop_bit 6 cp AND 0x1F))"
    define b1 :: byte where "b1 = ucast (0x80 OR (cp AND 0x3F))"
    have enc: "append_utf8 cp [] = [b0, b1]"
      using 2 by (simp add: append_utf8_def b0_def b1_def)
    have lt: "cp < 2 ^ 11" using 2 by (simp add: word_less_nat_alt word_le_nat_alt)
    have r: "push_bit 6 (ucast (b0 AND 0x1F)) OR ucast (b1 AND 0x3F) = cp"
      unfolding b0_def b1_def using rebuild2 [OF lt, of 3 1] by (simp add: mask_eq_exp_minus_1)
    have "b0 AND 0xE0 = 0xC0" "b1 AND 0xC0 = 0x80"
      unfolding b0_def b1_def by (rule lead2e, rule cont_byte)
    moreover have "0x80 \<le> cp" using 2 by (simp add: word_le_nat_alt)
    ultimately show ?thesis by (simp add: enc r Let_def)
  next
    case 3
    define b0 :: byte where "b0 = ucast (0xE0 OR (drop_bit 12 cp AND 0x0F))"
    define b1 :: byte where "b1 = ucast (0x80 OR (drop_bit 6 cp AND 0x3F))"
    define b2 :: byte where "b2 = ucast (0x80 OR (cp AND 0x3F))"
    have n: "\<not> cp \<le> 0x7F" using 3 by (auto simp: word_le_nat_alt)
    have enc: "append_utf8 cp [] = [b0, b1, b2]"
      using 3 n by (simp add: append_utf8_def b0_def b1_def b2_def)
    have lt: "cp < 2 ^ 16" using 3 by (simp add: word_less_nat_alt word_le_nat_alt)
    have r: "push_bit 12 (ucast (b0 AND 0x0F)) OR push_bit 6 (ucast (b1 AND 0x3F))
             OR ucast (b2 AND 0x3F) = cp"
      unfolding b0_def b1_def b2_def using rebuild3 [OF lt, of 7 1]
      by (simp add: mask_eq_exp_minus_1)
    have "b0 AND 0xF0 = 0xE0" "b1 AND 0xC0 = 0x80" "b2 AND 0xC0 = 0x80"
      unfolding b0_def b1_def b2_def by (rule lead3e, rule cont_byte, rule cont_byte)
    moreover have "0x800 \<le> cp" using 3 by (simp add: word_le_nat_alt)
    ultimately show ?thesis using assms(2) by (simp add: enc r Let_def)
  next
    case 4
    define b0 :: byte where "b0 = ucast (0xF0 OR (drop_bit 18 cp AND 0x07))"
    define b1 :: byte where "b1 = ucast (0x80 OR (drop_bit 12 cp AND 0x3F))"
    define b2 :: byte where "b2 = ucast (0x80 OR (drop_bit 6 cp AND 0x3F))"
    define b3 :: byte where "b3 = ucast (0x80 OR (cp AND 0x3F))"
    have n: "\<not> cp \<le> 0x7F" "\<not> cp \<le> 0x7FF" using 4 by (auto simp: word_le_nat_alt)
    have enc: "append_utf8 cp [] = [b0, b1, b2, b3]"
      using 4 n assms(1) by (simp add: append_utf8_def b0_def b1_def b2_def b3_def)
    have lt: "cp < 2 ^ 21" using assms(1) by (simp add: word_less_nat_alt word_le_nat_alt)
    have r: "push_bit 18 (ucast (b0 AND 0x07)) OR push_bit 12 (ucast (b1 AND 0x3F))
             OR push_bit 6 (ucast (b2 AND 0x3F)) OR ucast (b3 AND 0x3F) = cp"
      unfolding b0_def b1_def b2_def b3_def using rebuild4 [OF lt, of 15 1]
      by (simp add: mask_eq_exp_minus_1)
    have "b0 AND 0xF8 = 0xF0" "b1 AND 0xC0 = 0x80" "b2 AND 0xC0 = 0x80" "b3 AND 0xC0 = 0x80"
      unfolding b0_def b1_def b2_def b3_def
      by (rule lead4e, rule cont_byte, rule cont_byte, rule cont_byte)
    moreover have "0x10000 \<le> cp" using 4 by (simp add: word_le_nat_alt)
    ultimately show ?thesis using assms(1) by (simp add: enc r Let_def)
  qed
qed

lemma or_low_bits:
  fixes d M :: "32 word"
  assumes "d < 2 ^ 10"
  shows "(push_bit 10 M OR d) AND mask 10 = d" and "push_bit 10 M OR d = push_bit 10 M + d"
proof -
  have hi: "bit d n \<Longrightarrow> n < 10" for n using le_mask_eq [OF assms] by simp
  show "(push_bit 10 M OR d) AND mask 10 = d"
    by (rule bit_word_eqI) (use hi in \<open>auto simp: bit_simps\<close>)
  have "push_bit 10 M + d = push_bit 10 M OR d"
    by (rule disjunctive_add) (auto simp: bit_simps dest: hi)
  then show "push_bit 10 M OR d = push_bit 10 M + d" by simp
qed

lemma drop_bit_10_less:
  fixes v :: "32 word"
  assumes "v < 2 ^ 20"
  shows "drop_bit 10 v < 2 ^ 10"
proof -
  have "unat v < 2 ^ 20" using assms by (simp add: word_less_nat_alt)
  then have "unat v div 2 ^ 10 < 2 ^ 10" by simp
  then show ?thesis by (simp add: word_less_nat_alt drop_bit_eq_div unat_div)
qed

lemma and_3ff_less: "(v :: 32 word) AND 0x3FF < 2 ^ 10"
  using and_3ff_le [of v] by (simp add: word_less_nat_alt)

lemma surrogate_pair:
  fixes cp :: "32 word"
  assumes "0x10000 \<le> cp" and "cp \<le> 0x10FFFF"
  shows "getchar32 WCHAR16 (utf16_units cp @ rest) = (cp, rest)"
proof -
  define v where "v = cp - 0x10000"
  define d where "d = drop_bit 10 v"
  define e where "e = v AND 0x3FF"
  have v: "v < 2 ^ 20"
    using assms unfolding v_def by (simp add: word_less_nat_alt word_le_nat_alt unat_sub)
  have d: "d < 2 ^ 10" unfolding d_def using v by (rule drop_bit_10_less)
  have e: "e < 2 ^ 10" unfolding e_def by (rule and_3ff_less)
  have ud: "unat d < 1024" and ue: "unat e < 1024"
    using d e by (simp_all add: word_less_nat_alt)
  define hi where "hi = 0xD800 OR d"
  define lo where "lo = 0xDC00 OR e"
  have units: "utf16_units cp = [hi, lo]"
    using assms(1) by (simp add: utf16_units_def hi_def lo_def d_def e_def v_def not_less
                         word_le_nat_alt word_less_nat_alt)
  have hi_add: "hi = 0xD800 + d" and hi_low: "hi AND 0x3FF = d"
    unfolding hi_def using or_low_bits [OF d, of "0x36"] by (simp_all add: mask_eq_exp_minus_1)
  have lo_add: "lo = 0xDC00 + e" and lo_low: "lo AND 0x3FF = e"
    unfolding lo_def using or_low_bits [OF e, of "0x37"] by (simp_all add: mask_eq_exp_minus_1)
  have uhi: "unat hi = 55296 + unat d"
    unfolding hi_add using ud by (simp add: unat_word_ariths)
  have ulo: "unat lo = 56320 + unat e"
    unfolding lo_add using ue by (simp add: unat_word_ariths)
  have hi_range: "0xD800 \<le> hi" "hi \<le> 0xDBFF" and lo_range: "0xDC00 \<le> lo" "lo \<le> 0xDFFF"
    and lo16: "lo \<le> 0xFFFF"
    using uhi ulo ud ue by (simp_all add: word_le_nat_alt)
  have "push_bit 10 d + e = v"
    unfolding d_def e_def using bits_ident [of 10 v]
    by (simp add: take_bit_eq_mask mask_eq_exp_minus_1)
  then have val: "push_bit 10 (hi AND 0x3FF) + (lo AND 0x3FF) + 0x10000 = cp"
    by (simp add: hi_low lo_low v_def)
  have hi_and: "hi AND 0xFFFF = hi"
    using hi_range(2) by (intro and_ffff) (simp add: word_le_nat_alt)
  have lo_and: "lo AND 0xFFFF = lo" using lo16 by (rule and_ffff)
  have hi_ne: "hi \<noteq> 0xFFFF" using hi_range(2) by auto
  have hi2: "hi \<le> 0xDFFF" using hi_range(2) by (simp add: word_le_nat_alt)
  show ?thesis
    unfolding units using hi_range lo_range hi2 hi_ne val
    by (simp add: getchar32_def getwchar_def WEOF_def hi_and lo_and)
qed

lemma getchar32_wide_units:
  assumes "cp \<le> 0x10FFFF" and "\<not> (0xD800 \<le> cp \<and> cp \<le> 0xDFFF)"
  shows "getchar32 p (wide_units p cp @ rest) = (cp, rest)"
proof (cases p)
  case WCHAR32
  have "cp \<noteq> 0xFFFFFFFF" using assms(1) by auto
  then show ?thesis using WCHAR32
    by (simp add: wide_units_def getchar32_def getwchar_def WEOF_def)
next
  case WCHAR16
  show ?thesis
  proof (cases "cp < 0x10000")
    case True
    then have le: "cp \<le> 0xFFFF" by (simp add: word_le_nat_alt word_less_nat_alt)
    have a: "cp AND 0xFFFF = cp" using le by (rule and_ffff)
    have "\<not> (0xD800 \<le> cp \<and> cp \<le> 0xDBFF)" using assms(2) by (auto simp: word_le_nat_alt)
    then show ?thesis using True WCHAR16 assms(2)
      by (auto simp: wide_units_def utf16_units_def getchar32_def getwchar_def WEOF_def a)
  next
    case False
    then have "0x10000 \<le> cp" by (simp add: not_less)
    then show ?thesis using WCHAR16 assms(1) surrogate_pair [of cp rest]
      by (simp add: wide_units_def)
  qed
qed

text \<open>
  C4. For every code point up to U+10FFFF that is not a surrogate value, the bytes that
  \<open>append_utf8\<close> produces decode to the code point, and \<open>getchar32\<close> reads it back
  from the wide characters these bytes arrive as, on both kinds of platform.
\<close>

theorem utf8_round_trip:
  assumes "cp \<le> 0x10FFFF" and "\<not> (0xD800 \<le> cp \<and> cp \<le> 0xDFFF)"
  shows "utf8_decode (append_utf8 cp []) = Some cp
       \<and> getchar32 p (utf8_locale_input p (append_utf8 cp [])) = (cp, [])"
  using utf8_decode_encode [OF assms] getchar32_wide_units [OF assms, of p "[]"]
  by (simp add: utf8_locale_input_def)

theorem utf8_round_trip_witness:
  "(0x1F600 :: char32) \<le> 0x10FFFF
   \<and> append_utf8 0x1F600 [] = [0xF0, 0x9F, 0x98, 0x80]
   \<and> utf8_decode [0xF0, 0x9F, 0x98, 0x80] = Some 0x1F600
   \<and> getchar32 WCHAR16 (utf8_locale_input WCHAR16 [0xF0, 0x9F, 0x98, 0x80]) = (0x1F600, [])
   \<and> getchar32 WCHAR32 (utf8_locale_input WCHAR32 [0xF0, 0x9F, 0x98, 0x80]) = (0x1F600, [])"
proof -
  have h1: "(0x1F600 :: char32) \<le> 0x10FFFF" by simp
  have h2: "\<not> (0xD800 \<le> (0x1F600 :: char32) \<and> (0x1F600 :: char32) \<le> 0xDFFF)" by simp
  have e: "append_utf8 0x1F600 [] = [0xF0, 0x9F, 0x98, 0x80]" by (simp add: append_utf8_def)
  show ?thesis
    using utf8_round_trip [OF h1 h2, of WCHAR16] utf8_round_trip [OF h1 h2, of WCHAR32] h1
    unfolding e by simp
qed

end
